theory Spec2Isabelle
  imports Main
begin

section \<open>Data model of \<open>src/mod.ts\<close>\<close>

text \<open>
  The two string enums of the source. The constructors of \<open>ModuleType\<close> are always written
  qualified (\<open>ModuleType.Json\<close>), as the source writes them.
\<close>

datatype DenoMediaType =
  JavaScript | Mjs | Cjs | JSX | TypeScript | Mts | Cts | Dts | Dmts | Dcts | TSX
  | Json | Wasm | TsBuildInfo | SourceMap | Unknown

datatype ModuleType = Js | Jsx | Ts | Tsx | Json | Binary | Text | Empty

text \<open>
  A module record of the report is a JSON object; \<open>cacheDenoInfo\<close> inspects it by key
  presence (\<open>"specifier" in details\<close>), so every key is an optional field. The interface
  \<open>TypedModuleDetailsNpm\<close> declares the key \<open>npmPackage\<close>, while the projection tests the key
  \<open>npm_package\<close>: both are fields here. A present key is assumed to hold a value of its
  declared type (the source trusts \<open>JSON.parse\<close> through the return type of \<open>denoInfo\<close>).
\<close>

record ModuleInfo =
  specifier :: "string option"
  local :: "string option"
  mediaType :: "DenoMediaType option"
  npmPackage :: "string option"
  npm_package :: "string option"
  error :: "string option"

text \<open>\<open>redirects\<close> is a JSON object; the list is \<open>Object.entries(info.redirects)\<close>.\<close>

record DenoInfoJsonV1 =
  redirects :: "(string \<times> string) list"
  modules :: "ModuleInfo list"

record DenoResolveResult =
  localPath :: "string option"
  redirected :: string
  moduleType :: "ModuleType option"

section \<open>String primitives\<close>

definition startsWith :: "string \<Rightarrow> string \<Rightarrow> bool" where
  "startsWith s p = (take (length p) s = p)"

text \<open>
  \<open>String.prototype.replace\<close> with a string pattern: the first occurrence of the pattern,
  wherever it stands, is replaced; a string without the pattern is returned as it is.
\<close>

fun replace :: "string \<Rightarrow> string \<Rightarrow> string \<Rightarrow> string" where
  "replace [] pat rep = (if pat = [] then rep else [])"
| "replace (c # cs) pat rep =
     (if startsWith (c # cs) pat then rep @ drop (length pat) (c # cs)
      else c # replace cs pat rep)"

section \<open>Media types\<close>

fun mapMediaType :: "DenoMediaType \<Rightarrow> ModuleType" where
  "mapMediaType JavaScript = ModuleType.Js"
| "mapMediaType Mjs = ModuleType.Js"
| "mapMediaType Cjs = ModuleType.Js"
| "mapMediaType JSX = ModuleType.Jsx"
| "mapMediaType TypeScript = ModuleType.Ts"
| "mapMediaType Mts = ModuleType.Ts"
| "mapMediaType Cts = ModuleType.Ts"
| "mapMediaType Dts = ModuleType.Ts"
| "mapMediaType Dmts = ModuleType.Ts"
| "mapMediaType Dcts = ModuleType.Ts"
| "mapMediaType TSX = ModuleType.Tsx"
| "mapMediaType DenoMediaType.Json = ModuleType.Json"
| "mapMediaType Wasm = ModuleType.Binary"
| "mapMediaType TsBuildInfo = ModuleType.Text"
| "mapMediaType SourceMap = ModuleType.Text"
| "mapMediaType Unknown = ModuleType.Empty"

section \<open>Projection of a report into the cache: \<open>cacheDenoInfo\<close>\<close>

type_synonym cache = "string \<rightharpoonup> DenoResolveResult"

text \<open>The inner loop over \<open>Object.entries(info.redirects)\<close> for one module record.\<close>

fun cacheRedirects ::
  "(string \<times> string) list \<Rightarrow> string \<Rightarrow> DenoResolveResult \<Rightarrow> cache \<Rightarrow> cache" where
  "cacheRedirects [] spec result c = c"
| "cacheRedirects ((key, val) # rs) spec result c =
     cacheRedirects rs spec result
       (if val = spec then c(replace key ''file://'' '''' \<mapsto> result) else c)"

text \<open>The outer loop over \<open>info.modules\<close>.\<close>

fun cacheModules :: "(string \<times> string) list \<Rightarrow> ModuleInfo list \<Rightarrow> cache \<Rightarrow> cache" where
  "cacheModules rds [] c = c"
| "cacheModules rds (details # ms) c =
     (case (specifier details, npm_package details, mediaType details) of
        (Some spec, None, Some mt) \<Rightarrow>
          (let result = \<lparr>localPath = local details, redirected = spec,
                         moduleType = Some (mapMediaType mt)\<rparr>
           in cacheModules rds ms
                (cacheRedirects rds spec result (c(replace spec ''file://'' '''' \<mapsto> result))))
      | _ \<Rightarrow> cacheModules rds ms c)"

definition cacheDenoInfo :: "DenoInfoJsonV1 \<Rightarrow> cache \<Rightarrow> cache" where
  "cacheDenoInfo info c = cacheModules (redirects info) (modules info) c"

section \<open>The package pattern of \<open>extractPackageAndPath\<close>\<close>

text \<open>
  The regular expressions of the source are built from single characters, character classes,
  greedy repetition of a class, sequence, ordered alternative, greedy option and capture
  groups. A matcher is the list of its successes in the order in which backtracking tries
  them: the match the engine reports is the first one.
\<close>

datatype cclass = Lit char | NoneOf "char list" | Dot

text \<open>
  \<open>.\<close> matches every character but a line terminator. A \<open>char\<close> stands for a code unit
  of the string; of the four line terminators of the language the two below 256 exist here.
\<close>

fun accepts :: "cclass \<Rightarrow> char \<Rightarrow> bool" where
  "accepts (Lit c) x = (x = c)"
| "accepts (NoneOf cs) x = (x \<notin> set cs)"
| "accepts Dot x = (x \<noteq> CHR 0x0A \<and> x \<noteq> CHR 0x0D)"

datatype regex =
  Atom cclass | Plus cclass | Star cclass
  | Seq regex regex | Alt regex regex | Opt regex | Group nat regex

type_synonym captures = "nat \<rightharpoonup> string"

text \<open>
  The inputs left after a greedy repetition of a class, the longest repetition first.
\<close>

fun repeat :: "cclass \<Rightarrow> string \<Rightarrow> string list" where
  "repeat c [] = [[]]"
| "repeat c (x # xs) = (if accepts c x then repeat c xs @ [x # xs] else [x # xs])"

fun run :: "regex \<Rightarrow> string \<times> captures \<Rightarrow> (string \<times> captures) list" where
  "run (Atom c) (inp, caps) =
     (case inp of [] \<Rightarrow> [] | x # xs \<Rightarrow> if accepts c x then [(xs, caps)] else [])"
| "run (Plus c) (inp, caps) =
     (case inp of [] \<Rightarrow> []
      | x # xs \<Rightarrow> if accepts c x then map (\<lambda>r. (r, caps)) (repeat c xs) else [])"
| "run (Star c) (inp, caps) = map (\<lambda>r. (r, caps)) (repeat c inp)"
| "run (Seq a b) st = concat (map (run b) (run a st))"
| "run (Alt a b) st = run a st @ run b st"
| "run (Opt a) st = run a st @ [st]"
| "run (Group n a) (inp, caps) =
     map (\<lambda>(r, caps'). (r, caps'(n \<mapsto> take (length inp - length r) inp)))
       (run a (inp, caps))"

text \<open>
  \<open>specifier.match(regex)\<close> for a pattern without flags: the first start position with a
  match, and there the first success.
\<close>

fun match :: "regex \<Rightarrow> string \<Rightarrow> captures option" where
  "match r inp =
     (case run r (inp, Map.empty) of
        (rest, caps) # _ \<Rightarrow> Some caps
      | [] \<Rightarrow> (case inp of [] \<Rightarrow> None | x # xs \<Rightarrow> match r xs))"

text \<open>
  \<^verbatim>\<open>/(?:[^:]+:\/?)?([@]?[^/\@]+\/[^/\@]+|[^/\@]+)(?:@[^/]*)?(?:\/(.+))?/\<close>
\<close>

definition pkgScheme :: regex where
  "pkgScheme = Opt (Seq (Plus (NoneOf '':'')) (Seq (Atom (Lit CHR '':'')) (Opt (Atom (Lit CHR ''/'')))))"

definition pkgName :: regex where
  "pkgName = Group 1
     (Alt (Seq (Opt (Atom (Lit CHR ''@'')))
            (Seq (Plus (NoneOf ''/@'')) (Seq (Atom (Lit CHR ''/'')) (Plus (NoneOf ''/@'')))))
          (Plus (NoneOf ''/@'')))"

definition pkgVersion :: regex where
  "pkgVersion = Opt (Seq (Atom (Lit CHR ''@'')) (Star (NoneOf ''/'')))"

definition pkgPath :: regex where
  "pkgPath = Opt (Seq (Atom (Lit CHR ''/'')) (Group 2 (Plus Dot)))"

definition pkgRegex :: regex where
  "pkgRegex = Seq pkgScheme (Seq pkgName (Seq pkgVersion pkgPath))"

text \<open>\<open>match[i] || null\<close>: an unmatched group and the empty string both give \<open>null\<close>.\<close>

definition orNull :: "string option \<Rightarrow> string option" where
  "orNull v = (case v of None \<Rightarrow> None | Some s \<Rightarrow> if s = [] then None else Some s)"

definition extractPackageAndPath :: "string \<Rightarrow> string option \<times> string option" where
  "extractPackageAndPath spec =
     (case match pkgRegex spec of
        Some caps \<Rightarrow> (orNull (caps 1), orNull (caps 2))
      | None \<Rightarrow> (None, None))"

section \<open>The discovery client: \<open>denoInfo\<close>\<close>

text \<open>
  The exceptions of the source, one constructor for each place that throws or rejects:
  \<open>command.output()\<close> rejecting, \<open>JSON.parse\<close> throwing, the two \<open>Error\<close>s thrown by
  \<open>denoResolve\<close> and \<open>load\<close>, and \<open>Deno.readTextFile\<close> rejecting.
\<close>

datatype exn = CommandFailed | JSONSyntaxError | SpecifierNotFound | NoLocalPath | ReadFailed

text \<open>
  What the spawned \<open>deno info\<close> gives back: \<open>command.output()\<close> either rejects (the process
  could not be run) or resolves with the exit code and the bytes of standard output. The
  bytes are either no JSON text or the JSON text of a report.
\<close>

datatype stdout = NotJSON | ReportJSON DenoInfoJsonV1

datatype command_output = CommandError | Exited int stdout

text \<open>
  \<open>denoInfo\<close> destructures only \<open>stdout\<close> from the output and hands it to \<open>JSON.parse\<close>.
\<close>

fun denoInfo :: "command_output \<Rightarrow> exn + DenoInfoJsonV1" where
  "denoInfo CommandError = Inl CommandFailed"
| "denoInfo (Exited code NotJSON) = Inl JSONSyntaxError"
| "denoInfo (Exited code (ReportJSON info)) = Inr info"

text \<open>The failures of the discovery client, the spec's \<open>DiscoveryError\<close>.\<close>

fun DiscoveryError :: "exn \<Rightarrow> bool" where
  "DiscoveryError CommandFailed = True"
| "DiscoveryError JSONSyntaxError = True"
| "DiscoveryError SpecifierNotFound = False"
| "DiscoveryError NoLocalPath = False"
| "DiscoveryError ReadFailed = False"

section \<open>The resolution cache and the in-flight map: \<open>denoResolve\<close>\<close>

text \<open>
  A promise returned by \<open>denoResolve\<close> is either the promise of the async function
  suspended at \<open>await this.denoInfo(specifier)\<close> (it holds the specifier of its closure), or
  it is settled with a result or an exception.
\<close>

datatype promise = Pending string | Settled "exn + DenoResolveResult"

text \<open>
  The state of one \<open>DenoLoaderPlugin\<close>: its two maps, the promises \<open>denoResolve\<close> has
  created (a promise is its index), and the specifiers \<open>denoInfo\<close> has been called with, in
  order (the count of invocations; not a field of the source).
\<close>

record DenoLoaderPlugin =
  resolveDenoInfoCache :: cache
  resolvePromises :: "string \<rightharpoonup> nat"
  promises :: "promise list"
  denoInfoCalls :: "string list"

definition newPlugin :: DenoLoaderPlugin where
  "newPlugin = \<lparr>resolveDenoInfoCache = Map.empty, resolvePromises = Map.empty,
                 promises = [], denoInfoCalls = []\<rparr>"

text \<open>
  The call of \<open>denoResolve\<close>, up to its \<open>return\<close>. On a cache hit it returns a new promise,
  already fulfilled (\<open>Promise.resolve\<close>). With a computation in flight it returns that
  promise. Otherwise the async function starts and runs up to its first \<open>await\<close>, which
  calls \<open>denoInfo\<close>; its promise is then registered in \<open>resolvePromises\<close>.
\<close>

definition denoResolve :: "string \<Rightarrow> DenoLoaderPlugin \<Rightarrow> nat \<times> DenoLoaderPlugin" where
  "denoResolve spec w =
     (case resolveDenoInfoCache w spec of
        Some cachedResult \<Rightarrow>
          (length (promises w), w\<lparr>promises := promises w @ [Settled (Inr cachedResult)]\<rparr>)
      | None \<Rightarrow>
          (case resolvePromises w spec of
             Some promise \<Rightarrow> (promise, w)
           | None \<Rightarrow>
               (length (promises w),
                w\<lparr>resolvePromises := (resolvePromises w)(spec \<mapsto> length (promises w)),
                  promises := promises w @ [Pending spec],
                  denoInfoCalls := denoInfoCalls w @ [spec]\<rparr>)))"

text \<open>
  The \<open>try\<close> block of the async function, from the moment \<open>command.output()\<close> settles: the
  rest of \<open>denoInfo\<close>, the projection, and the second read of the cache.
\<close>

definition tryBlock ::
  "string \<Rightarrow> command_output \<Rightarrow> cache \<Rightarrow> (exn + DenoResolveResult) \<times> cache" where
  "tryBlock spec out c =
     (case denoInfo out of
        Inl e \<Rightarrow> (Inl e, c)
      | Inr info \<Rightarrow>
          (let c' = cacheDenoInfo info c in
           case c' spec of
             None \<Rightarrow> (Inl SpecifierNotFound, c')
           | Some cached \<Rightarrow> (Inr cached, c')))"

text \<open>
  The async function of promise \<open>p\<close> resumes with the output of its command and runs to its
  end: the \<open>try\<close> block, then \<open>finally\<close>, then the promise settles. Nothing after the one
  \<open>await\<close> gives up control, so no other task runs in between. A promise that is not
  pending has no computation to resume.
\<close>

definition settle :: "nat \<Rightarrow> command_output \<Rightarrow> DenoLoaderPlugin \<Rightarrow> DenoLoaderPlugin" where
  "settle p out w =
     (if p < length (promises w) then
        (case promises w ! p of
           Pending spec \<Rightarrow>
             (let (r, c) = tryBlock spec out (resolveDenoInfoCache w) in
              w\<lparr>resolveDenoInfoCache := c,
                resolvePromises := (resolvePromises w)(spec := None),
                promises := (promises w)[p := Settled r]\<rparr>)
         | Settled r \<Rightarrow> w)
      else w)"

text \<open>What \<open>await promise\<close> gives once the promise is settled.\<close>

definition awaited :: "nat \<Rightarrow> DenoLoaderPlugin \<Rightarrow> (exn + DenoResolveResult) option" where
  "awaited p w =
     (if p < length (promises w) then
        (case promises w ! p of Pending spec \<Rightarrow> None | Settled r \<Rightarrow> Some r)
      else None)"

text \<open>
  The tasks run one at a time and give up control only at an \<open>await\<close>, so a run of the plugin
  is a sequence of events: a call of \<open>denoResolve\<close> (from \<open>buildStart\<close>, \<open>resolveId\<close> or
  \<open>load\<close>), the command of a pending promise finishing, and \<open>buildStart\<close> projecting the
  report given to the constructor.
\<close>

datatype event = Call string | Finish nat command_output | Seed DenoInfoJsonV1

fun step :: "event \<Rightarrow> DenoLoaderPlugin \<Rightarrow> DenoLoaderPlugin" where
  "step (Call spec) w = snd (denoResolve spec w)"
| "step (Finish p out) w = settle p out w"
| "step (Seed info) w =
     w\<lparr>resolveDenoInfoCache := cacheDenoInfo info (resolveDenoInfoCache w)\<rparr>"

definition exec :: "event list \<Rightarrow> DenoLoaderPlugin \<Rightarrow> DenoLoaderPlugin" where
  "exec es w = fold step es w"

text \<open>\<open>n\<close> calls of \<open>denoResolve\<close> one after the other, with the promises they return.\<close>

fun resolveMany :: "nat \<Rightarrow> string \<Rightarrow> DenoLoaderPlugin \<Rightarrow> nat list \<times> DenoLoaderPlugin" where
  "resolveMany 0 spec w = ([], w)"
| "resolveMany (Suc n) spec w =
     (let (p, w1) = denoResolve spec w; (ps, w2) = resolveMany n spec w1 in (p # ps, w2))"

text \<open>
  One resolution awaited to its end with nothing else running: the call, then the command of
  the returned promise finishing with \<open>out\<close> (a promise that is already settled has no
  command to wait for), then the value the caller receives.
\<close>

definition resolveAwait ::
  "string \<Rightarrow> command_output \<Rightarrow> DenoLoaderPlugin \<Rightarrow>
     (exn + DenoResolveResult) option \<times> DenoLoaderPlugin" where
  "resolveAwait spec out w =
     (let (p, w1) = denoResolve spec w; w2 = settle p out w1 in (awaited p w2, w2))"

text \<open>The computations in flight for a specifier: the pending promises that hold it.\<close>

definition inFlight :: "string \<Rightarrow> DenoLoaderPlugin \<Rightarrow> nat list" where
  "inFlight spec w = filter (\<lambda>p. promises w ! p = Pending spec) [0..<length (promises w)]"

section \<open>The hooks \<open>resolveId\<close> and \<open>load\<close>\<close>

text \<open>
  The chain of prefix tests of \<open>resolveId\<close> on \<open>maybe_resolved\<close> (the specifier after the
  rewrite against the importer and the import map, both outside this development).
\<close>

datatype dispatch =
  BuiltIn string | FileUrl string | RegistryGraph string | HostResolve string
  | Remote string | NoMatch

definition npmPackageOf :: "string \<Rightarrow> string" where
  "npmPackageOf maybe_resolved =
     (case extractPackageAndPath maybe_resolved of
        (Some package_name, Some package_path) \<Rightarrow> package_name @ ''/'' @ package_path
      | (Some package_name, None) \<Rightarrow> package_name
      | (None, _) \<Rightarrow> maybe_resolved)"

definition resolveIdDispatch :: "string \<Rightarrow> dispatch" where
  "resolveIdDispatch maybe_resolved =
     (if startsWith maybe_resolved ''node:'' then BuiltIn maybe_resolved
      else if startsWith maybe_resolved ''file:'' then FileUrl maybe_resolved
      else if startsWith maybe_resolved ''jsr:'' then RegistryGraph maybe_resolved
      else if startsWith maybe_resolved ''npm:'' then HostResolve (npmPackageOf maybe_resolved)
      else if startsWith maybe_resolved ''http:'' \<or> startsWith maybe_resolved ''https:''
        then Remote maybe_resolved
      else NoMatch)"

text \<open>
  The \<open>jsr:\<close> branch after \<open>await this.denoResolve(maybe_resolved)\<close>: the pair is
  \<open>{id, external}\<close>.
\<close>

definition resolveIdResume :: "exn + DenoResolveResult \<Rightarrow> exn + string \<times> bool" where
  "resolveIdResume r =
     (case r of Inl e \<Rightarrow> Inl e | Inr cached \<Rightarrow> Inr (redirected cached, False))"

text \<open>
  \<open>load\<close> up to its \<open>await\<close>: the promise it waits for, or nothing when the id has none of
  the three prefixes and \<open>load\<close> returns \<open>undefined\<close>.
\<close>

definition loadStart :: "string \<Rightarrow> DenoLoaderPlugin \<Rightarrow> nat option \<times> DenoLoaderPlugin" where
  "loadStart ident w =
     (if startsWith ident ''jsr:'' \<or> startsWith ident ''http:'' \<or> startsWith ident ''https:''
      then (let (p, w') = denoResolve ident w in (Some p, w'))
      else (None, w))"

text \<open>
  \<open>load\<close> after the \<open>await\<close>, with the files \<open>Deno.readTextFile\<close> can read. \<open>!localPath\<close> holds
  for a missing path and for the empty string. The pair is \<open>{code, moduleType}\<close>.
\<close>

definition loadResume ::
  "(string \<rightharpoonup> string) \<Rightarrow> exn + DenoResolveResult \<Rightarrow> exn + string \<times> ModuleType option" where
  "loadResume files r =
     (case r of
        Inl e \<Rightarrow> Inl e
      | Inr cached \<Rightarrow>
          (case localPath cached of
             None \<Rightarrow> Inl NoLocalPath
           | Some path \<Rightarrow>
               if path = [] then Inl NoLocalPath
               else (case files path of
                  None \<Rightarrow> Inl ReadFailed
                | Some content \<Rightarrow>
                    Inr (if moduleType cached = Some ModuleType.Json
                           then ''export default '' @ content else content,
                         if moduleType cached = Some ModuleType.Json
                           then Some ModuleType.Js else moduleType cached))))"

section \<open>Notions used in the proofs\<close>

text \<open>The capture groups of an expression.\<close>

fun groups :: "regex \<Rightarrow> nat set" where
  "groups (Atom c) = {}"
| "groups (Plus c) = {}"
| "groups (Star c) = {}"
| "groups (Seq a b) = groups a \<union> groups b"
| "groups (Alt a b) = groups a \<union> groups b"
| "groups (Opt a) = groups a"
| "groups (Group n a) = insert n (groups a)"

text \<open>
  The invariant of the in-flight map: its entries are the pending promises, each under the
  specifier it holds.
\<close>

definition wellFormed :: "DenoLoaderPlugin \<Rightarrow> bool" where
  "wellFormed w =
     ((\<forall>spec p. resolvePromises w spec = Some p \<longrightarrow>
         p < length (promises w) \<and> promises w ! p = Pending spec) \<and>
      (\<forall>p spec. p < length (promises w) \<longrightarrow> promises w ! p = Pending spec \<longrightarrow>
         resolvePromises w spec = Some p))"

text \<open>
  The calls of \<open>Map.set\<close> a projection makes, in order, read off the two loops of
  \<open>cacheDenoInfo\<close>; \<open>setAll\<close> applies them to a cache, and lemma \<open>cacheDenoInfo_setAll\<close>
  below shows that this is the projection.
\<close>

fun redirectWrites ::
  "(string \<times> string) list \<Rightarrow> string \<Rightarrow> DenoResolveResult \<Rightarrow> (string \<times> DenoResolveResult) list" where
  "redirectWrites [] spec result = []"
| "redirectWrites ((key, val) # rs) spec result =
     (if val = spec then [(replace key ''file://'' '''', result)] else [])
       @ redirectWrites rs spec result"

fun moduleWrites ::
  "(string \<times> string) list \<Rightarrow> ModuleInfo list \<Rightarrow> (string \<times> DenoResolveResult) list" where
  "moduleWrites rds [] = []"
| "moduleWrites rds (details # ms) =
     (case (specifier details, npm_package details, mediaType details) of
        (Some spec, None, Some mt) \<Rightarrow>
          (replace spec ''file://'' '''',
             \<lparr>localPath = local details, redirected = spec, moduleType = Some (mapMediaType mt)\<rparr>)
          # redirectWrites rds spec
             \<lparr>localPath = local details, redirected = spec, moduleType = Some (mapMediaType mt)\<rparr>
          @ moduleWrites rds ms
      | _ \<Rightarrow> moduleWrites rds ms)"

definition writes :: "DenoInfoJsonV1 \<Rightarrow> (string \<times> DenoResolveResult) list" where
  "writes info = moduleWrites (redirects info) (modules info)"

fun setAll :: "(string \<times> DenoResolveResult) list \<Rightarrow> cache \<Rightarrow> cache" where
  "setAll [] c = c"
| "setAll ((k, v) # ws) c = setAll ws (c(k \<mapsto> v))"

text \<open>The keys a projection of the report writes, and the report an event projects.\<close>

definition writtenKeys :: "DenoInfoJsonV1 \<Rightarrow> string set" where
  "writtenKeys info = fst ` set (writes info)"

fun reportOf :: "event \<Rightarrow> DenoInfoJsonV1 option" where
  "reportOf (Call spec) = None"
| "reportOf (Finish p CommandError) = None"
| "reportOf (Finish p (Exited code NotJSON)) = None"
| "reportOf (Finish p (Exited code (ReportJSON info))) = Some info"
| "reportOf (Seed info) = Some info"

text \<open>
  The specifiers of a report of \<open>deno info\<close> are URLs of the schemes of the module graph.
  In a file URL the authority, the text between \<open>file://\<close> and the next \<open>/\<close>, is empty or
  a host name and holds no colon. \<open>printedReport\<close> asks this of the names the projection
  stores: the specifier of every record that passes the test of \<open>cacheDenoInfo\<close>, and every
  redirect source that points to such a specifier.
\<close>

definition fileUrl :: "string \<Rightarrow> bool" where
  "fileUrl s = (startsWith s ''file://''
                \<and> CHR '':'' \<notin> set (takeWhile (\<lambda>c. c \<noteq> CHR ''/'') (drop 7 s)))"

definition urlSpecifier :: "string \<Rightarrow> bool" where
  "urlSpecifier s =
     (fileUrl s
      \<or> (\<exists>scheme \<in> set [''http:'', ''https:'', ''jsr:'', ''npm:'', ''node:'', ''data:'', ''blob:''].
            startsWith s scheme))"

definition printedReport :: "DenoInfoJsonV1 \<Rightarrow> bool" where
  "printedReport info =
     (\<forall>details \<in> set (modules info).
        case (specifier details, npm_package details, mediaType details) of
          (Some spec, None, Some mt) \<Rightarrow>
            urlSpecifier spec
            \<and> (\<forall>(key, val) \<in> set (redirects info). val = spec \<longrightarrow> urlSpecifier key)
        | _ \<Rightarrow> True)"

section \<open>Lemmas\<close>

subsection \<open>The matcher\<close>

lemma repeat_suffix: "r \<in> set (repeat c inp) \<Longrightarrow> set r \<subseteq> set inp \<and> length r \<le> length inp"
  by (induction inp) (auto split: if_splits)

lemma run_length: "(r, caps') \<in> set (run rx (inp, caps)) \<Longrightarrow> length r \<le> length inp"
proof (induction rx arbitrary: inp caps r caps')
  case (Atom c) then show ?case by (auto split: list.splits if_splits)
next
  case (Plus c) then show ?case by (auto split: list.splits if_splits dest!: repeat_suffix)
next
  case (Star c) then show ?case by (auto dest!: repeat_suffix)
next
  case (Seq a b)
  then obtain m cm where "(m, cm) \<in> set (run a (inp, caps))" "(r, caps') \<in> set (run b (m, cm))"
    by auto
  with Seq.IH show ?case by (meson le_trans)
next
  case (Alt a b) then show ?case by auto
next
  case (Opt a) then show ?case by auto
next
  case (Group n a) then show ?case by auto
qed

lemma run_caps:
  "(r, caps') \<in> set (run rx (inp, caps)) \<Longrightarrow> n \<notin> groups rx \<Longrightarrow> caps' n = caps n"
proof (induction rx arbitrary: inp caps r caps')
  case (Atom c) then show ?case by (auto split: list.splits if_splits)
next
  case (Plus c) then show ?case by (auto split: list.splits if_splits)
next
  case (Star c) then show ?case by auto
next
  case (Seq a b)
  then obtain m cm where "(m, cm) \<in> set (run a (inp, caps))" "(r, caps') \<in> set (run b (m, cm))"
    by auto
  with Seq.IH Seq.prems(2) show ?case by (metis UnCI groups.simps(4))
next
  case (Alt a b) then show ?case by auto
next
  case (Opt a) then show ?case by auto
next
  case (Group k a) then show ?case by auto
qed

lemma run_Seq_iff:
  "(st' \<in> set (run (Seq a b) st)) = (\<exists>m \<in> set (run a st). st' \<in> set (run b m))"
  by auto

lemma plus_consumes:
  "(r, caps') \<in> set (run (Plus c) (inp, caps)) \<Longrightarrow> length r < length inp"
  by (auto split: list.splits if_splits dest!: repeat_suffix)

lemma run_Alt_iff:
  "(st' \<in> set (run (Alt a b) st)) = (st' \<in> set (run a st) \<or> st' \<in> set (run b st))"
  by auto

lemma run_Opt_iff:
  "(st' \<in> set (run (Opt a) st)) = (st' \<in> set (run a st) \<or> st' = st)"
  by auto

lemma run_Group_iff:
  "((r, caps') \<in> set (run (Group n a) (inp, caps))) =
     (\<exists>c0. (r, c0) \<in> set (run a (inp, caps)) \<and> caps' = c0(n \<mapsto> take (length inp - length r) inp))"
  by auto

lemma match_hit: "run rx (inp, Map.empty) = (rest, caps') # sts \<Longrightarrow> match rx inp = Some caps'"
  by simp

lemma match_miss_Nil: "run rx ([], Map.empty) = [] \<Longrightarrow> match rx [] = None"
  by simp

lemma match_miss_Cons: "run rx (x # xs, Map.empty) = [] \<Longrightarrow> match rx (x # xs) = match rx xs"
  by simp

lemma plus_accepts:
  "accepts c x \<Longrightarrow> r \<in> set (repeat c xs) \<Longrightarrow> (r, caps) \<in> set (run (Plus c) (x # xs, caps))"
  by simp

lemma plus_rejects: "\<forall>x \<in> set inp. \<not> accepts c x \<Longrightarrow> run (Plus c) (inp, caps) = []"
  by (cases inp) auto

lemma atom_rejects: "\<forall>x \<in> set inp. \<not> accepts c x \<Longrightarrow> run (Atom c) (inp, caps) = []"
  by (cases inp) auto

lemma plus_suffix: "(r, caps') \<in> set (run (Plus c) (inp, caps)) \<Longrightarrow> set r \<subseteq> set inp"
  by (auto split: list.splits if_splits dest!: repeat_suffix)

lemma opt_atom_suffix: "(r, caps') \<in> set (run (Opt (Atom c)) (inp, caps)) \<Longrightarrow> set r \<subseteq> set inp"
  by (auto split: list.splits if_splits)

declare run.simps [simp del]

declare match.simps [simp del]

lemma match_Some:
  "match rx inp = Some caps' \<Longrightarrow> \<exists>n r. (r, caps') \<in> set (run rx (drop n inp, Map.empty))"
proof (induction inp)
  case Nil
  show ?case
  proof (cases "run rx ([], Map.empty)")
    case Nil
    with \<open>match rx [] = Some caps'\<close> show ?thesis by (simp add: match_miss_Nil)
  next
    case (Cons st sts)
    obtain rest c where st: "st = (rest, c)" by (cases st)
    with Cons Nil.prems have "c = caps'" by (simp add: match_hit)
    with Cons st have "(rest, caps') \<in> set (run rx (drop 0 [], Map.empty))" by simp
    then show ?thesis by blast
  qed
next
  case (Cons x xs)
  show ?case
  proof (cases "run rx (x # xs, Map.empty)")
    case Nil
    with Cons.prems have "match rx xs = Some caps'" by (simp add: match_miss_Cons)
    with Cons.IH obtain n r where "(r, caps') \<in> set (run rx (drop n xs, Map.empty))" by blast
    then have "(r, caps') \<in> set (run rx (drop (Suc n) (x # xs), Map.empty))" by simp
    then show ?thesis by blast
  next
    case (Cons st sts)
    obtain rest c where st: "st = (rest, c)" by (cases st)
    with Cons Cons.prems have "c = caps'" by (simp add: match_hit)
    with Cons st have "(rest, caps') \<in> set (run rx (drop 0 (x # xs), Map.empty))" by simp
    then show ?thesis by blast
  qed
qed

lemma repeat_nonempty: "repeat c inp \<noteq> []"
  by (induction inp) auto

subsection \<open>The package pattern\<close>

lemma pkgName_captures:
  assumes "(r, caps') \<in> set (run pkgName (inp, caps))"
  shows "\<exists>w. caps' 1 = Some w \<and> w \<noteq> []"
proof -
  let ?name = "Plus (NoneOf ''/@'')"
  let ?scoped = "Seq (Opt (Atom (Lit CHR ''@''))) (Seq ?name (Seq (Atom (Lit CHR ''/'')) ?name))"
  from assms obtain c0 where in0: "(r, c0) \<in> set (run (Alt ?scoped ?name) (inp, caps))"
    and c: "caps' = c0(1 \<mapsto> take (length inp - length r) inp)"
    unfolding pkgName_def run_Group_iff by blast
  have "length r < length inp"
  proof -
    from in0 consider
      (scoped) "(r, c0) \<in> set (run ?scoped (inp, caps))"
      | (plain) "(r, c0) \<in> set (run ?name (inp, caps))"
      unfolding run_Alt_iff by blast
    then show ?thesis
    proof cases
      case scoped
      then obtain m cm where m: "(m, cm) \<in> set (run (Opt (Atom (Lit CHR ''@''))) (inp, caps))"
        and rest: "(r, c0) \<in> set (run (Seq ?name (Seq (Atom (Lit CHR ''/'')) ?name)) (m, cm))"
        unfolding run_Seq_iff by fast
      from rest obtain m2 cm2 where m2: "(m2, cm2) \<in> set (run ?name (m, cm))"
        and rest2: "(r, c0) \<in> set (run (Seq (Atom (Lit CHR ''/'')) ?name) (m2, cm2))"
        unfolding run_Seq_iff by fast
      have "length m \<le> length inp" using m run_length by blast
      moreover have "length m2 < length m" using m2 plus_consumes by blast
      moreover have "length r \<le> length m2" using rest2 run_length by blast
      ultimately show ?thesis by linarith
    next
      case plain
      then show ?thesis using plus_consumes by blast
    qed
  qed
  then have "take (length inp - length r) inp \<noteq> []" by (cases inp) auto
  with c show ?thesis by simp
qed

lemma pkgRegex_captures:
  assumes "(r, caps') \<in> set (run pkgRegex (inp, caps))"
  shows "\<exists>w. caps' 1 = Some w \<and> w \<noteq> []"
proof -
  from assms obtain m1 where "m1 \<in> set (run pkgScheme (inp, caps))"
    and "(r, caps') \<in> set (run (Seq pkgName (Seq pkgVersion pkgPath)) m1)"
    unfolding pkgRegex_def run_Seq_iff by blast
  then obtain m2 where m2: "m2 \<in> set (run pkgName m1)"
    and rest: "(r, caps') \<in> set (run (Seq pkgVersion pkgPath) m2)"
    unfolding run_Seq_iff by blast
  obtain i1 c1 where m1: "m1 = (i1, c1)" by (cases m1)
  obtain i2 c2 where m2': "m2 = (i2, c2)" by (cases m2)
  from m2 m1 m2' pkgName_captures obtain w where w: "c2 1 = Some w" "w \<noteq> []" by blast
  have "1 \<notin> groups (Seq pkgVersion pkgPath)" by (simp add: pkgVersion_def pkgPath_def)
  with rest m2' have "caps' 1 = c2 1" using run_caps by blast
  with w show ?thesis by simp
qed

lemma pkgRegex_matches_at:
  assumes "x \<noteq> CHR ''/''" "x \<noteq> CHR ''@''"
  shows "run pkgRegex (x # xs, caps) \<noteq> []"
proof -
  let ?name = "Plus (NoneOf ''/@'')"
  obtain r where r: "r \<in> set (repeat (NoneOf ''/@'') xs)"
    using repeat_nonempty [of "NoneOf ''/@''" xs] by (cases "repeat (NoneOf ''/@'') xs") auto
  have s0: "(x # xs, caps) \<in> set (run pkgScheme (x # xs, caps))"
    unfolding pkgScheme_def run_Opt_iff by blast
  have "(r, caps) \<in> set (run ?name (x # xs, caps))"
    using r assms by (intro plus_accepts) simp_all
  then have s1: "(r, caps(1 \<mapsto> take (length (x # xs) - length r) (x # xs))) \<in> set (run pkgName (x # xs, caps))"
    unfolding pkgName_def run_Group_iff run_Alt_iff by blast
  let ?st = "(r, caps(1 \<mapsto> take (length (x # xs) - length r) (x # xs)))"
  have s2: "?st \<in> set (run pkgVersion ?st)"
    unfolding pkgVersion_def run_Opt_iff by blast
  have s3: "?st \<in> set (run pkgPath ?st)"
    unfolding pkgPath_def run_Opt_iff by blast
  have "?st \<in> set (run pkgRegex (x # xs, caps))"
    unfolding pkgRegex_def run_Seq_iff using s0 s1 s2 s3 by blast
  then show ?thesis by auto
qed

lemma pkgRegex_fails_at:
  assumes "set inp \<subseteq> {CHR ''/'', CHR ''@''}"
  shows "run pkgRegex (inp, caps) = []"
proof -
  let ?name = "Plus (NoneOf ''/@'')"
  let ?colon = "Atom (Lit CHR '':'')"
  have name: "run ?name (i, c) = []" if "set i \<subseteq> {CHR ''/'', CHR ''@''}" for i c
    using that by (intro plus_rejects) auto
  have colon: "run ?colon (i, c) = []" if "set i \<subseteq> {CHR ''/'', CHR ''@''}" for i c
    using that by (intro atom_rejects) auto
  have no_scheme: "st \<notin> set (run (Seq (Plus (NoneOf '':'')) (Seq ?colon (Opt (Atom (Lit CHR ''/''))))) (inp, caps))" for st
  proof
    assume "st \<in> set (run (Seq (Plus (NoneOf '':'')) (Seq ?colon (Opt (Atom (Lit CHR ''/''))))) (inp, caps))"
    then obtain m cm where m: "(m, cm) \<in> set (run (Plus (NoneOf '':'')) (inp, caps))"
      and z: "st \<in> set (run (Seq ?colon (Opt (Atom (Lit CHR ''/'')))) (m, cm))"
      unfolding run_Seq_iff by fast
    from m have "set m \<subseteq> set inp" by (rule plus_suffix)
    with assms have "set m \<subseteq> {CHR ''/'', CHR ''@''}" by blast
    then have "run ?colon (m, cm) = []" by (rule colon)
    with z show False unfolding run_Seq_iff by simp
  qed
  have scheme: "st = (inp, caps)" if "st \<in> set (run pkgScheme (inp, caps))" for st
    using that no_scheme unfolding pkgScheme_def run_Opt_iff by blast
  have no_name: "(r, c0) \<notin> set (run pkgName (inp, caps))" for r c0
  proof
    assume "(r, c0) \<in> set (run pkgName (inp, caps))"
    then obtain c1 where
      "(r, c1) \<in> set (run (Seq (Opt (Atom (Lit CHR ''@''))) (Seq ?name (Seq (Atom (Lit CHR ''/'')) ?name))) (inp, caps))
       \<or> (r, c1) \<in> set (run ?name (inp, caps))"
      unfolding pkgName_def run_Group_iff run_Alt_iff by blast
    then show False
    proof
      assume "(r, c1) \<in> set (run (Seq (Opt (Atom (Lit CHR ''@''))) (Seq ?name (Seq (Atom (Lit CHR ''/'')) ?name))) (inp, caps))"
      then obtain m cm where m: "(m, cm) \<in> set (run (Opt (Atom (Lit CHR ''@''))) (inp, caps))"
        and rest: "(r, c1) \<in> set (run (Seq ?name (Seq (Atom (Lit CHR ''/'')) ?name)) (m, cm))"
        unfolding run_Seq_iff by fast
      from m have "set m \<subseteq> set inp" by (rule opt_atom_suffix)
      with assms have "set m \<subseteq> {CHR ''/'', CHR ''@''}" by blast
      then have "run ?name (m, cm) = []" by (rule name)
      with rest show False unfolding run_Seq_iff by simp
    next
      assume "(r, c1) \<in> set (run ?name (inp, caps))"
      with name [OF assms, of caps] show False by simp
    qed
  qed
  have "z \<notin> set (run pkgRegex (inp, caps))" for z
  proof
    assume "z \<in> set (run pkgRegex (inp, caps))"
    then obtain m m2 where "m \<in> set (run pkgScheme (inp, caps))"
      and "m2 \<in> set (run pkgName m)"
      unfolding pkgRegex_def run_Seq_iff by blast
    with scheme have "m2 \<in> set (run pkgName (inp, caps))" by blast
    with no_name show False by (cases m2) blast
  qed
  then show ?thesis by (cases "run pkgRegex (inp, caps)") auto
qed

lemma match_None_iff:
  "(match pkgRegex inp = None) = (set inp \<subseteq> {CHR ''/'', CHR ''@''})"
proof (induction inp)
  case Nil
  have "run pkgRegex ([], Map.empty) = []" by (rule pkgRegex_fails_at) simp
  then show ?case by (simp add: match_miss_Nil)
next
  case (Cons x xs)
  show ?case
  proof (cases "run pkgRegex (x # xs, Map.empty)")
    case Nil
    then have m: "match pkgRegex (x # xs) = match pkgRegex xs" by (rule match_miss_Cons)
    have "x = CHR ''/'' \<or> x = CHR ''@''"
      using Nil pkgRegex_matches_at [of x xs Map.empty] by blast
    with Cons.IH m show ?thesis by auto
  next
    case (Cons st sts)
    obtain rest c where "st = (rest, c)" by (cases st)
    with Cons have some: "match pkgRegex (x # xs) = Some c" by (simp add: match_hit)
    have "\<not> set (x # xs) \<subseteq> {CHR ''/'', CHR ''@''}"
      using pkgRegex_fails_at [of "x # xs" Map.empty] Cons by auto
    with some show ?thesis by simp
  qed
qed

lemma extract_null_iff:
  "(extractPackageAndPath spec = (None, None)) = (set spec \<subseteq> {CHR ''/'', CHR ''@''})"
proof (cases "match pkgRegex spec")
  case None
  then show ?thesis using match_None_iff [of spec] by (simp add: extractPackageAndPath_def)
next
  case (Some caps')
  then obtain n r where "(r, caps') \<in> set (run pkgRegex (drop n spec, Map.empty))"
    using match_Some by blast
  then obtain w where "caps' 1 = Some w" "w \<noteq> []" using pkgRegex_captures by blast
  then have "extractPackageAndPath spec \<noteq> (None, None)"
    using Some by (simp add: extractPackageAndPath_def orNull_def)
  moreover have "\<not> set spec \<subseteq> {CHR ''/'', CHR ''@''}"
    using Some match_None_iff [of spec] by simp
  ultimately show ?thesis by simp
qed

lemma extract_name_null_iff:
  "(fst (extractPackageAndPath spec) = None) = (set spec \<subseteq> {CHR ''/'', CHR ''@''})"
proof (cases "match pkgRegex spec")
  case None
  then show ?thesis using match_None_iff [of spec] by (simp add: extractPackageAndPath_def)
next
  case (Some caps')
  then obtain n r where "(r, caps') \<in> set (run pkgRegex (drop n spec, Map.empty))"
    using match_Some by blast
  then obtain w where "caps' 1 = Some w" "w \<noteq> []" using pkgRegex_captures by blast
  then have "fst (extractPackageAndPath spec) \<noteq> None"
    using Some by (simp add: extractPackageAndPath_def orNull_def)
  moreover have "\<not> set spec \<subseteq> {CHR ''/'', CHR ''@''}"
    using Some match_None_iff [of spec] by simp
  ultimately show ?thesis by simp
qed

subsection \<open>Removing \<open>file://\<close>\<close>

lemma replace_prefix:
  assumes "startsWith s ''file://''"
  shows "replace s ''file://'' '''' = drop 7 s"
proof (cases s)
  case Nil
  with assms show ?thesis by (simp add: startsWith_def)
next
  case (Cons c cs)
  with assms show ?thesis by (simp add: eval_nat_numeral)
qed

lemma replace_prefix_neq:
  assumes "startsWith s ''file://''"
  shows "replace s ''file://'' '''' \<noteq> s"
proof -
  from assms have "s \<noteq> []" by (auto simp: startsWith_def)
  then have "length (drop 7 s) < length s" by simp
  then have "drop 7 s \<noteq> s" by (metis less_irrefl)
  then show ?thesis unfolding replace_prefix [OF assms] .
qed

subsection \<open>The projection as a sequence of writes\<close>

lemma setAll_append: "setAll (xs @ ys) c = setAll ys (setAll xs c)"
  by (induction xs arbitrary: c) auto

lemma cacheRedirects_setAll:
  "cacheRedirects rds spec result c = setAll (redirectWrites rds spec result) c"
proof (induction rds arbitrary: c)
  case Nil
  then show ?case by simp
next
  case (Cons r rds)
  obtain key val where r: "r = (key, val)" by (cases r)
  show ?case
  proof (cases "val = spec")
    case True
    have "cacheRedirects ((key, val) # rds) spec result c =
        cacheRedirects rds spec result (c(replace key ''file://'' '''' \<mapsto> result))"
      using True by simp
    also have "\<dots> = setAll (redirectWrites rds spec result) (c(replace key ''file://'' '''' \<mapsto> result))"
      by (rule Cons.IH)
    also have "\<dots> = setAll (redirectWrites ((key, val) # rds) spec result) c"
      using True by simp
    finally show ?thesis unfolding r .
  next
    case False
    have "cacheRedirects ((key, val) # rds) spec result c = cacheRedirects rds spec result c"
      using False by simp
    also have "\<dots> = setAll (redirectWrites rds spec result) c" by (rule Cons.IH)
    also have "\<dots> = setAll (redirectWrites ((key, val) # rds) spec result) c"
      using False by simp
    finally show ?thesis unfolding r .
  qed
qed

lemma cacheModules_setAll: "cacheModules rds ms c = setAll (moduleWrites rds ms) c"
proof (induction ms arbitrary: c)
  case Nil
  then show ?case by simp
next
  case (Cons details ms)
  show ?case
  proof (cases "specifier details")
    case None
    then show ?thesis using Cons.IH by simp
  next
    case (Some spec)
    show ?thesis
    proof (cases "npm_package details")
      case (Some a)
      then show ?thesis using Cons.IH \<open>specifier details = Some spec\<close> by simp
    next
      case np: None
      show ?thesis
      proof (cases "mediaType details")
        case None
        then show ?thesis using Cons.IH \<open>specifier details = Some spec\<close> np by simp
      next
        case (Some mt)
        then show ?thesis using Cons.IH \<open>specifier details = Some spec\<close> np
          by (simp add: cacheRedirects_setAll setAll_append Let_def)
      qed
    qed
  qed
qed

lemma cacheDenoInfo_setAll: "cacheDenoInfo info c = setAll (writes info) c"
  by (simp add: cacheDenoInfo_def writes_def cacheModules_setAll)

lemma setAll_other: "k \<notin> fst ` set ws \<Longrightarrow> setAll ws c k = c k"
  by (induction ws arbitrary: c) auto

lemma setAll_keeps: "c k \<noteq> None \<Longrightarrow> setAll ws c k \<noteq> None"
  by (induction ws arbitrary: c) auto

lemma setAll_unique:
  "(k, v) \<in> set ws \<Longrightarrow> (\<And>v'. (k, v') \<in> set ws \<Longrightarrow> v' = v) \<Longrightarrow> setAll ws c k = Some v"
proof (induction ws arbitrary: c)
  case Nil
  then show ?case by simp
next
  case (Cons w ws)
  obtain k' v' where w: "w = (k', v')" by (cases w)
  show ?case
  proof (cases "k \<in> fst ` set ws")
    case True
    then obtain v2 where "(k, v2) \<in> set ws" by auto
    with Cons.prems(2) have "(k, v) \<in> set ws" by fastforce
    moreover have "\<And>v'. (k, v') \<in> set ws \<Longrightarrow> v' = v" using Cons.prems(2) by simp
    ultimately have "setAll ws (c(k' \<mapsto> v')) k = Some v" by (rule Cons.IH)
    then show ?thesis using w by simp
  next
    case False
    with Cons.prems(1) w have "k' = k" "v' = v" by force+
    then have "setAll (w # ws) c k = (c(k \<mapsto> v)) k" using False w by (simp add: setAll_other)
    then show ?thesis by simp
  qed
qed

lemma setAll_written_mem:
  "k \<in> fst ` set ws \<Longrightarrow> \<exists>v. setAll ws c k = Some v \<and> (k, v) \<in> set ws"
proof (induction ws arbitrary: c)
  case Nil
  then show ?case by simp
next
  case (Cons w ws)
  obtain k' v' where w: "w = (k', v')" by (cases w)
  show ?case
  proof (cases "k \<in> fst ` set ws")
    case True
    from Cons.IH [OF True, of "c(k' \<mapsto> v')"]
    obtain v where "setAll ws (c(k' \<mapsto> v')) k = Some v" "(k, v) \<in> set ws" by blast
    then have "setAll (w # ws) c k = Some v \<and> (k, v) \<in> set (w # ws)" unfolding w by simp
    then show ?thesis by blast
  next
    case False
    with Cons.prems w have "k' = k" by auto
    then have "setAll (w # ws) c k = Some v'" using False w by (simp add: setAll_other)
    then show ?thesis using w \<open>k' = k\<close> by auto
  qed
qed

lemma redirectWrites_mem:
  "((k, v) \<in> set (redirectWrites rds spec result)) =
     (v = result \<and> (\<exists>key. (key, spec) \<in> set rds \<and> k = replace key ''file://'' ''''))"
proof (induction rds)
  case Nil
  then show ?case by simp
next
  case (Cons r rds)
  obtain key val where r: "r = (key, val)" by (cases r)
  show ?case unfolding r using Cons.IH by auto
qed

lemma moduleWrites_mem:
  "((k, v) \<in> set (moduleWrites rds ms)) =
     (\<exists>details spec mt. details \<in> set ms \<and> specifier details = Some spec \<and>
        npm_package details = None \<and> mediaType details = Some mt \<and>
        v = \<lparr>localPath = local details, redirected = spec, moduleType = Some (mapMediaType mt)\<rparr> \<and>
        (k = replace spec ''file://'' '''' \<or>
         (\<exists>key. (key, spec) \<in> set rds \<and> k = replace key ''file://'' '''')))"
proof -
  define P where "P = (\<lambda>details :: ModuleInfo. \<exists>spec mt. specifier details = Some spec \<and>
        npm_package details = None \<and> mediaType details = Some mt \<and>
        v = \<lparr>localPath = local details, redirected = spec, moduleType = Some (mapMediaType mt)\<rparr> \<and>
        (k = replace spec ''file://'' '''' \<or>
         (\<exists>key. (key, spec) \<in> set rds \<and> k = replace key ''file://'' '''')))"
  have "((k, v) \<in> set (moduleWrites rds ms)) = (\<exists>details \<in> set ms. P details)"
  proof (induction ms)
    case Nil
    then show ?case by simp
  next
    case (Cons d ms)
    show ?case
    proof (cases "\<exists>spec mt. specifier d = Some spec \<and> npm_package d = None \<and> mediaType d = Some mt")
      case True
      then obtain spec mt where d: "specifier d = Some spec" "npm_package d = None" "mediaType d = Some mt"
        by blast
      let ?e = "\<lparr>localPath = local d, redirected = spec, moduleType = Some (mapMediaType mt)\<rparr>"
      have "moduleWrites rds (d # ms) =
          (replace spec ''file://'' '''', ?e) # redirectWrites rds spec ?e @ moduleWrites rds ms"
        using d by simp
      then have "((k, v) \<in> set (moduleWrites rds (d # ms))) =
          ((k = replace spec ''file://'' '''' \<and> v = ?e) \<or> (k, v) \<in> set (redirectWrites rds spec ?e)
            \<or> (k, v) \<in> set (moduleWrites rds ms))"
        by auto
      also have "\<dots> = ((v = ?e \<and> (k = replace spec ''file://'' '''' \<or>
           (\<exists>key. (key, spec) \<in> set rds \<and> k = replace key ''file://'' '''')))
            \<or> (k, v) \<in> set (moduleWrites rds ms))"
        unfolding redirectWrites_mem by blast
      also have "(v = ?e \<and> (k = replace spec ''file://'' '''' \<or>
           (\<exists>key. (key, spec) \<in> set rds \<and> k = replace key ''file://'' ''''))) = P d"
        unfolding P_def using d by simp
      finally show ?thesis unfolding Cons.IH by simp
    next
      case False
      then have nP: "\<not> P d" unfolding P_def by blast
      from False have eq: "moduleWrites rds (d # ms) = moduleWrites rds ms"
        by (auto split: option.splits)
      show ?thesis unfolding eq using Cons.IH nP by simp
    qed
  qed
  then show ?thesis unfolding P_def by blast
qed

lemma writes_mem:
  "((k, v) \<in> set (writes info)) =
     (\<exists>details spec mt. details \<in> set (modules info) \<and> specifier details = Some spec \<and>
        npm_package details = None \<and> mediaType details = Some mt \<and>
        v = \<lparr>localPath = local details, redirected = spec, moduleType = Some (mapMediaType mt)\<rparr> \<and>
        (k = replace spec ''file://'' '''' \<or>
         (\<exists>key. (key, spec) \<in> set (redirects info) \<and> k = replace key ''file://'' '''')))"
  unfolding writes_def by (rule moduleWrites_mem)

lemma writtenKeys_iff:
  "(k \<in> writtenKeys info) =
     (\<exists>details spec mt. details \<in> set (modules info) \<and> specifier details = Some spec \<and>
        npm_package details = None \<and> mediaType details = Some mt \<and>
        (k = replace spec ''file://'' '''' \<or>
         (\<exists>key. (key, spec) \<in> set (redirects info) \<and> k = replace key ''file://'' '''')))"
proof
  assume "k \<in> writtenKeys info"
  then obtain v where "(k, v) \<in> set (writes info)" unfolding writtenKeys_def by auto
  then show "\<exists>details spec mt. details \<in> set (modules info) \<and> specifier details = Some spec \<and>
        npm_package details = None \<and> mediaType details = Some mt \<and>
        (k = replace spec ''file://'' '''' \<or>
         (\<exists>key. (key, spec) \<in> set (redirects info) \<and> k = replace key ''file://'' ''''))"
    unfolding writes_mem by blast
next
  assume "\<exists>details spec mt. details \<in> set (modules info) \<and> specifier details = Some spec \<and>
        npm_package details = None \<and> mediaType details = Some mt \<and>
        (k = replace spec ''file://'' '''' \<or>
         (\<exists>key. (key, spec) \<in> set (redirects info) \<and> k = replace key ''file://'' ''''))"
  then obtain details spec mt where "details \<in> set (modules info) \<and> specifier details = Some spec \<and>
        npm_package details = None \<and> mediaType details = Some mt \<and>
        (k = replace spec ''file://'' '''' \<or>
         (\<exists>key. (key, spec) \<in> set (redirects info) \<and> k = replace key ''file://'' ''''))"
    by blast
  then have "(k, \<lparr>localPath = local details, redirected = spec, moduleType = Some (mapMediaType mt)\<rparr>)
      \<in> set (writes info)"
    unfolding writes_mem by blast
  then show "k \<in> writtenKeys info" unfolding writtenKeys_def by force
qed

lemma cacheDenoInfo_other:
  "k \<notin> writtenKeys info \<Longrightarrow> cacheDenoInfo info c k = c k"
  unfolding cacheDenoInfo_setAll writtenKeys_def by (rule setAll_other)

lemma cacheDenoInfo_keeps: "c k \<noteq> None \<Longrightarrow> cacheDenoInfo info c k \<noteq> None"
  unfolding cacheDenoInfo_setAll by (rule setAll_keeps)

subsection \<open>The steps of \<open>denoResolve\<close>\<close>

lemma denoResolve_hit:
  "resolveDenoInfoCache w spec = Some c \<Longrightarrow>
   denoResolve spec w = (length (promises w), w\<lparr>promises := promises w @ [Settled (Inr c)]\<rparr>)"
  by (simp add: denoResolve_def)

lemma denoResolve_join:
  "resolveDenoInfoCache w spec = None \<Longrightarrow> resolvePromises w spec = Some p \<Longrightarrow>
   denoResolve spec w = (p, w)"
  by (simp add: denoResolve_def)

lemma denoResolve_start:
  "resolveDenoInfoCache w spec = None \<Longrightarrow> resolvePromises w spec = None \<Longrightarrow>
   denoResolve spec w =
     (length (promises w),
      w\<lparr>resolvePromises := (resolvePromises w)(spec \<mapsto> length (promises w)),
        promises := promises w @ [Pending spec],
        denoInfoCalls := denoInfoCalls w @ [spec]\<rparr>)"
  by (simp add: denoResolve_def)

lemma denoResolve_cache:
  "resolveDenoInfoCache (snd (denoResolve spec w)) = resolveDenoInfoCache w"
  by (simp add: denoResolve_def split: option.splits)

lemma settle_pending:
  "p < length (promises w) \<Longrightarrow> promises w ! p = Pending spec \<Longrightarrow>
   settle p out w =
     w\<lparr>resolveDenoInfoCache := snd (tryBlock spec out (resolveDenoInfoCache w)),
       resolvePromises := (resolvePromises w)(spec := None),
       promises := (promises w)[p := Settled (fst (tryBlock spec out (resolveDenoInfoCache w)))]\<rparr>"
  by (simp add: settle_def split: prod.splits)

lemma settle_idle:
  "p \<ge> length (promises w) \<or> (\<exists>r. promises w ! p = Settled r) \<Longrightarrow> settle p out w = w"
  by (auto simp: settle_def)

lemma settle_awaited:
  assumes "p < length (promises w)" "promises w ! p = Pending spec"
  shows "awaited p (settle p out w) = Some (fst (tryBlock spec out (resolveDenoInfoCache w)))"
  unfolding settle_pending [OF assms] using assms(1) by (simp add: awaited_def)

lemma settle_fields:
  assumes "p < length (promises w)" "promises w ! p = Pending spec"
  shows "resolveDenoInfoCache (settle p out w) = snd (tryBlock spec out (resolveDenoInfoCache w))"
    and "resolvePromises (settle p out w) = (resolvePromises w)(spec := None)"
    and "denoInfoCalls (settle p out w) = denoInfoCalls w"
    and "length (promises (settle p out w)) = length (promises w)"
  unfolding settle_pending [OF assms] by simp_all

lemma settle_calls: "denoInfoCalls (settle p out w) = denoInfoCalls w"
  by (simp add: settle_def split: promise.splits prod.splits)

lemma tryBlock_cases:
  "tryBlock spec out c =
     (case denoInfo out of
        Inl e \<Rightarrow> (Inl e, c)
      | Inr info \<Rightarrow>
          (case cacheDenoInfo info c spec of
             None \<Rightarrow> (Inl SpecifierNotFound, cacheDenoInfo info c)
           | Some cached \<Rightarrow> (Inr cached, cacheDenoInfo info c)))"
  by (simp add: tryBlock_def Let_def split: sum.splits)

lemma denoInfo_DiscoveryError: "denoInfo out = Inl e \<Longrightarrow> DiscoveryError e"
  by (cases out rule: denoInfo.cases) auto

lemma tryBlock_notFound:
  "(fst (tryBlock spec out c) = Inl SpecifierNotFound) =
     (\<exists>info. denoInfo out = Inr info \<and> cacheDenoInfo info c spec = None)"
proof (cases "denoInfo out")
  case (Inl e)
  then have "DiscoveryError e" by (rule denoInfo_DiscoveryError)
  then have "e \<noteq> SpecifierNotFound" by auto
  with Inl show ?thesis by (simp add: tryBlock_cases)
next
  case (Inr info)
  then show ?thesis by (simp add: tryBlock_cases split: option.splits)
qed

lemma tryBlock_entry:
  "fst (tryBlock spec out c) = Inr e \<Longrightarrow> snd (tryBlock spec out c) spec = Some e"
  by (auto simp: tryBlock_cases split: sum.splits option.splits)

lemma tryBlock_failure:
  "denoInfo out = Inl e \<Longrightarrow> tryBlock spec out c = (Inl e, c)"
  by (simp add: tryBlock_cases)

lemma awaited_hit:
  assumes "resolveDenoInfoCache w spec = Some c"
  shows "awaited (fst (denoResolve spec w)) (snd (denoResolve spec w)) = Some (Inr c)"
  unfolding denoResolve_hit [OF assms] by (simp add: awaited_def)

lemma awaited_pending:
  "p < length (promises w) \<Longrightarrow> promises w ! p = Pending spec \<Longrightarrow> awaited p w = None"
  by (simp add: awaited_def)

lemma awaited_step:
  assumes "awaited p w = Some r"
  shows "awaited p (step e w) = Some r"
proof -
  from assms have p: "p < length (promises w)" and s: "promises w ! p = Settled r"
    by (auto simp: awaited_def split: if_splits promise.splits)
  show ?thesis
  proof (cases e)
    case (Call spec)
    have "p < length (promises (snd (denoResolve spec w))) \<and> promises (snd (denoResolve spec w)) ! p = Settled r"
      using p s by (auto simp: denoResolve_def nth_append split: option.splits)
    then show ?thesis unfolding Call step.simps by (simp add: awaited_def)
  next
    case (Finish q out)
    show ?thesis
    proof (cases "q < length (promises w)")
      case False
      then show ?thesis using assms Finish by (simp add: settle_def)
    next
      case True
      show ?thesis
      proof (cases "promises w ! q")
        case (Settled r')
        then show ?thesis using assms Finish True by (simp add: settle_def)
      next
        case (Pending spec)
        with s have "q \<noteq> p" by auto
        then show ?thesis unfolding Finish step.simps settle_pending [OF True Pending]
          using p s by (simp add: awaited_def)
      qed
    qed
  next
    case (Seed info)
    then show ?thesis using p s by (simp add: awaited_def)
  qed
qed

lemma awaited_exec: "awaited p w = Some r \<Longrightarrow> awaited p (exec es w) = Some r"
  unfolding exec_def
proof (induction es arbitrary: w)
  case Nil
  then show ?case by simp
next
  case (Cons e es)
  from Cons.prems have "awaited p (step e w) = Some r" by (rule awaited_step)
  then have "awaited p (fold step es (step e w)) = Some r" by (rule Cons.IH)
  then show ?case by simp
qed

subsection \<open>The invariant of the in-flight map\<close>

lemma wellFormed_new: "wellFormed newPlugin"
  by (simp add: wellFormed_def newPlugin_def)

lemma wellFormedI:
  assumes "\<And>spec p. resolvePromises w spec = Some p \<Longrightarrow>
         p < length (promises w) \<and> promises w ! p = Pending spec"
    and "\<And>p spec. p < length (promises w) \<Longrightarrow> promises w ! p = Pending spec \<Longrightarrow>
         resolvePromises w spec = Some p"
  shows "wellFormed w"
  using assms unfolding wellFormed_def by blast

lemma wellFormedD1:
  "wellFormed w \<Longrightarrow> resolvePromises w spec = Some p \<Longrightarrow>
     p < length (promises w) \<and> promises w ! p = Pending spec"
  unfolding wellFormed_def by blast

lemma wellFormedD2:
  "wellFormed w \<Longrightarrow> p < length (promises w) \<Longrightarrow> promises w ! p = Pending spec \<Longrightarrow>
     resolvePromises w spec = Some p"
  unfolding wellFormed_def by blast

lemma wellFormed_denoResolve:
  assumes wf: "wellFormed w"
  shows "wellFormed (snd (denoResolve spec w))"
proof (cases "resolveDenoInfoCache w spec")
  case (Some c)
  show ?thesis
    unfolding denoResolve_hit [OF Some]
  proof (rule wellFormedI)
    fix s p
    assume "resolvePromises (snd (length (promises w), w\<lparr>promises := promises w @ [Settled (Inr c)]\<rparr>)) s = Some p"
    then have "resolvePromises w s = Some p" by simp
    from wellFormedD1 [OF wf this]
    show "p < length (promises (snd (length (promises w), w\<lparr>promises := promises w @ [Settled (Inr c)]\<rparr>)))
       \<and> promises (snd (length (promises w), w\<lparr>promises := promises w @ [Settled (Inr c)]\<rparr>)) ! p = Pending s"
      by (simp add: nth_append)
  next
    fix p s
    assume "p < length (promises (snd (length (promises w), w\<lparr>promises := promises w @ [Settled (Inr c)]\<rparr>)))"
      and "promises (snd (length (promises w), w\<lparr>promises := promises w @ [Settled (Inr c)]\<rparr>)) ! p = Pending s"
    then have "p < length (promises w) \<and> promises w ! p = Pending s"
      by (cases "p < length (promises w)") (auto simp: nth_append)
    with wellFormedD2 [OF wf] 
    show "resolvePromises (snd (length (promises w), w\<lparr>promises := promises w @ [Settled (Inr c)]\<rparr>)) s = Some p"
      by simp
  qed
next
  case None
  show ?thesis
  proof (cases "resolvePromises w spec")
    case (Some p)
    show ?thesis unfolding denoResolve_join [OF None Some] using wf by simp
  next
    case rp: None
    let ?w = "w\<lparr>resolvePromises := (resolvePromises w)(spec \<mapsto> length (promises w)),
        promises := promises w @ [Pending spec],
        denoInfoCalls := denoInfoCalls w @ [spec]\<rparr>"
    have "wellFormed ?w"
    proof (rule wellFormedI)
      fix s p
      assume a: "resolvePromises ?w s = Some p"
      show "p < length (promises ?w) \<and> promises ?w ! p = Pending s"
      proof (cases "s = spec")
        case True
        with a have "p = length (promises w)" by simp
        with True show ?thesis by simp
      next
        case False
        with a have "resolvePromises w s = Some p" by simp
        from wellFormedD1 [OF wf this] show ?thesis by (simp add: nth_append)
      qed
    next
      fix p s
      assume a: "p < length (promises ?w)" and b: "promises ?w ! p = Pending s"
      show "resolvePromises ?w s = Some p"
      proof (cases "p < length (promises w)")
        case True
        with b have "promises w ! p = Pending s" by (simp add: nth_append)
        from wellFormedD2 [OF wf True this] have r: "resolvePromises w s = Some p" .
        with rp have "s \<noteq> spec" by auto
        with r show ?thesis by simp
      next
        case False
        with a have p: "p = length (promises w)" by simp
        with b have "s = spec" by simp
        with p show ?thesis by simp
      qed
    qed
    then show ?thesis unfolding denoResolve_start [OF None rp] by simp
  qed
qed

lemma wellFormed_settle:
  assumes wf: "wellFormed w"
  shows "wellFormed (settle p out w)"
proof (cases "p < length (promises w)")
  case False
  then show ?thesis using wf by (simp add: settle_def)
next
  case True
  show ?thesis
  proof (cases "promises w ! p")
    case (Settled r)
    then show ?thesis using wf True by (simp add: settle_def)
  next
    case (Pending spec)
    let ?w = "w\<lparr>resolveDenoInfoCache := snd (tryBlock spec out (resolveDenoInfoCache w)),
       resolvePromises := (resolvePromises w)(spec := None),
       promises := (promises w)[p := Settled (fst (tryBlock spec out (resolveDenoInfoCache w)))]\<rparr>"
    have rp: "resolvePromises w spec = Some p" using wellFormedD2 [OF wf True Pending] .
    have "wellFormed ?w"
    proof (rule wellFormedI)
      fix s q
      assume "resolvePromises ?w s = Some q"
      then have s: "s \<noteq> spec" and q: "resolvePromises w s = Some q" by (auto split: if_splits)
      from wellFormedD1 [OF wf q] have q1: "q < length (promises w)" and q2: "promises w ! q = Pending s"
        by blast+
      from q2 Pending s have "q \<noteq> p" by auto
      with q1 q2 show "q < length (promises ?w) \<and> promises ?w ! q = Pending s" by simp
    next
      fix q s
      assume q1: "q < length (promises ?w)" and q2: "promises ?w ! q = Pending s"
      from q1 have q1': "q < length (promises w)" by simp
      from q2 q1' have qp: "q \<noteq> p" by (auto simp: nth_list_update)
      with q2 have q2': "promises w ! q = Pending s" by simp
      from wellFormedD2 [OF wf q1' q2'] have q3: "resolvePromises w s = Some q" .
      with rp qp have "s \<noteq> spec" by auto
      with q3 show "resolvePromises ?w s = Some q" by simp
    qed
    then show ?thesis unfolding settle_pending [OF True Pending] .
  qed
qed

lemma wellFormed_step:
  assumes wf: "wellFormed w"
  shows "wellFormed (step e w)"
proof (cases e)
  case (Call spec)
  have "wellFormed (snd (denoResolve spec w))" using wf by (rule wellFormed_denoResolve)
  then show ?thesis unfolding Call step.simps .
next
  case (Finish p out)
  have "wellFormed (settle p out w)" using wf by (rule wellFormed_settle)
  then show ?thesis unfolding Finish step.simps .
next
  case (Seed info)
  have "wellFormed (w\<lparr>resolveDenoInfoCache := cacheDenoInfo info (resolveDenoInfoCache w)\<rparr>) = wellFormed w"
    unfolding wellFormed_def by simp
  with wf have "wellFormed (w\<lparr>resolveDenoInfoCache := cacheDenoInfo info (resolveDenoInfoCache w)\<rparr>)"
    by blast
  then show ?thesis unfolding Seed step.simps .
qed

lemma wellFormed_exec: "wellFormed w \<Longrightarrow> wellFormed (exec es w)"
  unfolding exec_def
proof (induction es arbitrary: w)
  case Nil
  then show ?case by simp
next
  case (Cons e es)
  from Cons.prems have "wellFormed (step e w)" by (rule wellFormed_step)
  then have "wellFormed (fold step es (step e w))" by (rule Cons.IH)
  then show ?case by simp
qed

lemma reachable_wellFormed: "wellFormed (exec es newPlugin)"
  using wellFormed_new by (rule wellFormed_exec)

lemma filter_eq_upt: "p < n \<Longrightarrow> filter (\<lambda>q. q = p) [0..<n] = [p]"
proof (induction n)
  case 0
  then show ?case by simp
next
  case (Suc n)
  show ?case
  proof (cases "p = n")
    case True
    have "filter (\<lambda>q. q = n) [0..<n] = []" by (simp add: filter_empty_conv)
    with True show ?thesis by simp
  next
    case False
    with Suc.prems have "p < n" by simp
    with Suc.IH False show ?thesis by simp
  qed
qed

lemma inFlight_wellFormed:
  assumes wf: "wellFormed w"
  shows "inFlight spec w = (case resolvePromises w spec of None \<Rightarrow> [] | Some p \<Rightarrow> [p])"
proof (cases "resolvePromises w spec")
  case None
  have "promises w ! p \<noteq> Pending spec" if "p < length (promises w)" for p
  proof
    assume "promises w ! p = Pending spec"
    from wellFormedD2 [OF wf that this] None show False by simp
  qed
  then have "inFlight spec w = []" by (simp add: inFlight_def filter_empty_conv)
  with None show ?thesis by simp
next
  case (Some p)
  from wellFormedD1 [OF wf Some] have p: "p < length (promises w)" "promises w ! p = Pending spec"
    by blast+
  have eq: "(promises w ! q = Pending spec) = (q = p)" if "q < length (promises w)" for q
  proof
    assume "promises w ! q = Pending spec"
    from wellFormedD2 [OF wf that this] Some show "q = p" by simp
  next
    assume "q = p"
    with p show "promises w ! q = Pending spec" by simp
  qed
  have "inFlight spec w = filter (\<lambda>q. q = p) [0..<length (promises w)]"
    unfolding inFlight_def by (rule filter_cong) (simp_all add: eq)
  also have "\<dots> = [p]" using p(1) by (rule filter_eq_upt)
  finally show ?thesis using Some by simp
qed

lemma inFlight_le_one: "wellFormed w \<Longrightarrow> length (inFlight spec w) \<le> 1"
  by (simp add: inFlight_wellFormed split: option.splits)

lemma inFlight_entry:
  "wellFormed w \<Longrightarrow> (resolvePromises w spec = Some p) = (inFlight spec w = [p])"
  by (simp add: inFlight_wellFormed split: option.splits)

lemma inFlight_step:
  assumes wf: "wellFormed w" and rp: "resolvePromises w spec = Some p"
    and e: "\<And>out. e \<noteq> Finish p out"
  shows "resolvePromises (step e w) spec = Some p
         \<and> count_list (denoInfoCalls (step e w)) spec = count_list (denoInfoCalls w) spec"
proof (cases e)
  case (Call s)
  show ?thesis
  proof (cases "resolveDenoInfoCache w s")
    case (Some c)
    show ?thesis unfolding Call step.simps denoResolve_hit [OF Some] using rp by simp
  next
    case None
    show ?thesis
    proof (cases "resolvePromises w s")
      case (Some q)
      show ?thesis unfolding Call step.simps denoResolve_join [OF None Some] using rp by simp
    next
      case idle: None
      with rp have "s \<noteq> spec" by auto
      then show ?thesis unfolding Call step.simps denoResolve_start [OF None idle] using rp by simp
    qed
  qed
next
  case (Finish q out)
  with e have qp: "q \<noteq> p" by auto
  show ?thesis
  proof (cases "q < length (promises w)")
    case False
    then show ?thesis unfolding Finish step.simps using rp by (simp add: settle_def)
  next
    case True
    show ?thesis
    proof (cases "promises w ! q")
      case (Settled r)
      then show ?thesis unfolding Finish step.simps using rp True by (simp add: settle_def)
    next
      case (Pending s)
      from wellFormedD2 [OF wf True Pending] have "resolvePromises w s = Some q" .
      with rp qp have "s \<noteq> spec" by auto
      then show ?thesis unfolding Finish step.simps settle_fields(2,3) [OF True Pending]
        using rp by simp
    qed
  qed
next
  case (Seed info)
  show ?thesis unfolding Seed step.simps using rp by simp
qed

lemma inFlight_exec:
  assumes "wellFormed w" and "resolvePromises w spec = Some p"
    and "\<And>out. Finish p out \<notin> set es"
  shows "resolvePromises (exec es w) spec = Some p
         \<and> count_list (denoInfoCalls (exec es w)) spec = count_list (denoInfoCalls w) spec"
  using assms unfolding exec_def
proof (induction es arbitrary: w)
  case Nil
  then show ?case by simp
next
  case (Cons e es)
  have ne: "\<And>out. e \<noteq> Finish p out" using Cons.prems(3) by auto
  from inFlight_step [OF Cons.prems(1,2) ne]
  have rp: "resolvePromises (step e w) spec = Some p"
    and cnt: "count_list (denoInfoCalls (step e w)) spec = count_list (denoInfoCalls w) spec"
    by blast+
  have wf: "wellFormed (step e w)" using Cons.prems(1) by (rule wellFormed_step)
  have "\<And>out. Finish p out \<notin> set es" using Cons.prems(3) by auto
  from Cons.IH [OF wf rp this] cnt show ?case by simp
qed

subsection \<open>Resolutions\<close>

lemma resolveMany_join:
  assumes "resolveDenoInfoCache w spec = None" "resolvePromises w spec = Some p"
  shows "resolveMany n spec w = (replicate n p, w)"
  by (induction n) (simp_all add: denoResolve_join [OF assms])

lemma resolveMany_miss:
  assumes miss: "resolveDenoInfoCache w spec = None"
  shows "resolveMany (Suc n) spec w
          = (replicate (Suc n) (fst (denoResolve spec w)), snd (denoResolve spec w))
        \<and> resolvePromises (snd (denoResolve spec w)) spec = Some (fst (denoResolve spec w))
        \<and> resolveDenoInfoCache (snd (denoResolve spec w)) spec = None
        \<and> denoInfoCalls (snd (denoResolve spec w))
            = denoInfoCalls w @ (if resolvePromises w spec = None then [spec] else [])"
proof (cases "resolvePromises w spec")
  case None
  let ?p = "fst (denoResolve spec w)" and ?w = "snd (denoResolve spec w)"
  have rp: "resolvePromises ?w spec = Some ?p" unfolding denoResolve_start [OF miss None] by simp
  have c: "resolveDenoInfoCache ?w spec = None" unfolding denoResolve_start [OF miss None] using miss by simp
  have calls: "denoInfoCalls ?w = denoInfoCalls w @ [spec]" unfolding denoResolve_start [OF miss None] by simp
  have "resolveMany n spec ?w = (replicate n ?p, ?w)" using c rp by (rule resolveMany_join)
  then have "resolveMany (Suc n) spec w = (replicate (Suc n) ?p, ?w)"
    by (simp add: split_beta)
  then show ?thesis using rp c calls None by simp
next
  case (Some p)
  have dr: "denoResolve spec w = (p, w)" using miss Some by (rule denoResolve_join)
  have "resolveMany (Suc n) spec w = (replicate (Suc n) p, w)" using miss Some by (rule resolveMany_join)
  then show ?thesis unfolding dr using Some miss by simp
qed

lemma denoResolve_miss:
  assumes wf: "wellFormed w" and miss: "resolveDenoInfoCache w spec = None"
  shows "fst (denoResolve spec w) < length (promises (snd (denoResolve spec w)))
         \<and> promises (snd (denoResolve spec w)) ! fst (denoResolve spec w) = Pending spec
         \<and> resolveDenoInfoCache (snd (denoResolve spec w)) = resolveDenoInfoCache w"
proof -
  have wf': "wellFormed (snd (denoResolve spec w))" using wf by (rule wellFormed_denoResolve)
  have rp: "resolvePromises (snd (denoResolve spec w)) spec = Some (fst (denoResolve spec w))"
    using resolveMany_miss [OF miss, of 0] by blast
  have c: "resolveDenoInfoCache (snd (denoResolve spec w)) = resolveDenoInfoCache w"
  proof (cases "resolvePromises w spec")
    case None
    show ?thesis unfolding denoResolve_start [OF miss None] by simp
  next
    case (Some q)
    show ?thesis unfolding denoResolve_join [OF miss Some] by simp
  qed
  from wellFormedD1 [OF wf' rp] c show ?thesis by blast
qed

lemma resolveAwait_hit:
  assumes "resolveDenoInfoCache w spec = Some e"
  shows "resolveAwait spec out w
           = (Some (Inr e), w\<lparr>promises := promises w @ [Settled (Inr e)]\<rparr>)"
proof -
  let ?w = "w\<lparr>promises := promises w @ [Settled (Inr e)]\<rparr>"
  have "settle (length (promises w)) out ?w = ?w" by (rule settle_idle) simp
  moreover have "awaited (length (promises w)) ?w = Some (Inr e)" by (simp add: awaited_def)
  ultimately show ?thesis by (simp add: resolveAwait_def denoResolve_hit [OF assms])
qed

lemma resolveAwait_pending:
  assumes "denoResolve spec w = (p, w1)" "p < length (promises w1)" "promises w1 ! p = Pending spec"
  shows "resolveAwait spec out w
           = (Some (fst (tryBlock spec out (resolveDenoInfoCache w1))), settle p out w1)"
  by (simp add: resolveAwait_def assms(1) settle_awaited [OF assms(2,3)])


lemma resolveAwait_miss:
  assumes wf: "wellFormed w" and miss: "resolveDenoInfoCache w spec = None"
  shows "resolveAwait spec out w
           = (Some (fst (tryBlock spec out (resolveDenoInfoCache w))),
              settle (fst (denoResolve spec w)) out (snd (denoResolve spec w)))
         \<and> resolveDenoInfoCache (snd (resolveAwait spec out w))
           = snd (tryBlock spec out (resolveDenoInfoCache w))"
proof -
  let ?p = "fst (denoResolve spec w)" and ?wa = "snd (denoResolve spec w)"
  from denoResolve_miss [OF wf miss]
  have p: "?p < length (promises ?wa)" "promises ?wa ! ?p = Pending spec"
    and c: "resolveDenoInfoCache ?wa = resolveDenoInfoCache w"
    by blast+
  have dr: "denoResolve spec w = (?p, ?wa)" by simp
  have ra: "resolveAwait spec out w
           = (Some (fst (tryBlock spec out (resolveDenoInfoCache w))), settle ?p out ?wa)"
    using resolveAwait_pending [OF dr p, of out] unfolding c .
  have "resolveDenoInfoCache (settle ?p out ?wa) = snd (tryBlock spec out (resolveDenoInfoCache w))"
    unfolding settle_fields(1) [OF p] c ..
  with ra show ?thesis by simp
qed

subsection \<open>The cache over a run\<close>

lemma settle_cache:
  "resolveDenoInfoCache (settle p out w) = resolveDenoInfoCache w
   \<or> (\<exists>info. reportOf (Finish p out) = Some info
         \<and> resolveDenoInfoCache (settle p out w) = cacheDenoInfo info (resolveDenoInfoCache w))"
proof (cases "p < length (promises w) \<and> (\<exists>spec. promises w ! p = Pending spec)")
  case False
  then have "settle p out w = w" by (auto simp: settle_def split: promise.splits)
  then show ?thesis by simp
next
  case True
  then obtain spec where p: "p < length (promises w)" "promises w ! p = Pending spec" by blast
  show ?thesis
  proof (cases out rule: denoInfo.cases)
    case 1
    then show ?thesis unfolding settle_fields(1) [OF p] by (simp add: tryBlock_cases)
  next
    case (2 code)
    then show ?thesis unfolding settle_fields(1) [OF p] by (simp add: tryBlock_cases)
  next
    case (3 code info)
    then show ?thesis unfolding settle_fields(1) [OF p]
      by (simp add: tryBlock_cases split: option.splits)
  qed
qed

lemma step_cache:
  "resolveDenoInfoCache (step e w) = resolveDenoInfoCache w
   \<or> (\<exists>info. reportOf e = Some info
         \<and> resolveDenoInfoCache (step e w) = cacheDenoInfo info (resolveDenoInfoCache w))"
proof (cases e)
  case (Call spec)
  then show ?thesis by (simp add: denoResolve_cache)
next
  case (Finish p out)
  then show ?thesis using settle_cache [of p out w] by simp
next
  case (Seed info)
  then show ?thesis by simp
qed

lemma step_keeps:
  assumes "resolveDenoInfoCache w k \<noteq> None"
  shows "resolveDenoInfoCache (step e w) k \<noteq> None"
proof -
  from step_cache [of e w] show ?thesis
  proof
    assume "resolveDenoInfoCache (step e w) = resolveDenoInfoCache w"
    with assms show ?thesis by simp
  next
    assume "\<exists>info. reportOf e = Some info
         \<and> resolveDenoInfoCache (step e w) = cacheDenoInfo info (resolveDenoInfoCache w)"
    then obtain info where "resolveDenoInfoCache (step e w) = cacheDenoInfo info (resolveDenoInfoCache w)"
      by blast
    moreover have "cacheDenoInfo info (resolveDenoInfoCache w) k \<noteq> None"
      using assms by (rule cacheDenoInfo_keeps)
    ultimately show ?thesis by simp
  qed
qed

lemma step_other:
  assumes "\<And>info. reportOf e = Some info \<Longrightarrow> k \<notin> writtenKeys info"
  shows "resolveDenoInfoCache (step e w) k = resolveDenoInfoCache w k"
  using step_cache [of e w] cacheDenoInfo_other assms by auto

lemma exec_keeps:
  "resolveDenoInfoCache w k \<noteq> None \<Longrightarrow> resolveDenoInfoCache (exec es w) k \<noteq> None"
  unfolding exec_def
proof (induction es arbitrary: w)
  case Nil
  then show ?case by simp
next
  case (Cons e es)
  from Cons.prems have "resolveDenoInfoCache (step e w) k \<noteq> None" by (rule step_keeps)
  then have "resolveDenoInfoCache (fold step es (step e w)) k \<noteq> None" by (rule Cons.IH)
  then show ?case by simp
qed

lemma exec_other:
  "(\<And>e info. e \<in> set es \<Longrightarrow> reportOf e = Some info \<Longrightarrow> k \<notin> writtenKeys info) \<Longrightarrow>
   resolveDenoInfoCache (exec es w) k = resolveDenoInfoCache w k"
  unfolding exec_def
proof (induction es arbitrary: w)
  case Nil
  then show ?case by simp
next
  case (Cons e es)
  have "resolveDenoInfoCache (step e w) k = resolveDenoInfoCache w k"
    using Cons.prems by (intro step_other) auto
  moreover have "resolveDenoInfoCache (fold step es (step e w)) k = resolveDenoInfoCache (step e w) k"
    using Cons.prems by (intro Cons.IH) auto
  ultimately show ?case by simp
qed

subsection \<open>Outcomes of a resolution\<close>

lemma pending_notFound:
  assumes "p < length (promises w)" and "promises w ! p = Pending spec"
  shows "((awaited p (settle p out w) = Some (Inl SpecifierNotFound))
            = (\<exists>info. denoInfo out = Inr info
                 \<and> cacheDenoInfo info (resolveDenoInfoCache w) spec = None))
         \<and> denoInfoCalls (settle p out w) = denoInfoCalls w
         \<and> resolvePromises (settle p out w) spec = None
         \<and> (\<forall>es'. awaited p (exec es' (settle p out w)) = awaited p (settle p out w))
         \<and> (awaited p (settle p out w) = Some (Inl SpecifierNotFound) \<longrightarrow>
              resolveDenoInfoCache (settle p out w) spec = None)"
proof -
  have a: "(awaited p (settle p out w) = Some (Inl SpecifierNotFound))
           = (\<exists>info. denoInfo out = Inr info
                \<and> cacheDenoInfo info (resolveDenoInfoCache w) spec = None)"
    unfolding settle_awaited [OF assms]
    using tryBlock_notFound [of spec out "resolveDenoInfoCache w"] by simp
  have b: "denoInfoCalls (settle p out w) = denoInfoCalls w" by (rule settle_calls)
  have c: "resolvePromises (settle p out w) spec = None"
    unfolding settle_fields(2) [OF assms] by simp
  have d: "awaited p (exec es' (settle p out w)) = awaited p (settle p out w)" for es'
  proof -
    have r: "awaited p (settle p out w)
        = Some (fst (tryBlock spec out (resolveDenoInfoCache w)))"
      using assms by (rule settle_awaited)
    then have "awaited p (exec es' (settle p out w))
        = Some (fst (tryBlock spec out (resolveDenoInfoCache w)))"
      by (rule awaited_exec)
    with r show ?thesis by simp
  qed
  have e: "resolveDenoInfoCache (settle p out w) spec = None"
    if "awaited p (settle p out w) = Some (Inl SpecifierNotFound)"
  proof -
    from that a obtain info where info: "denoInfo out = Inr info"
      "cacheDenoInfo info (resolveDenoInfoCache w) spec = None"
      by blast
    have "resolveDenoInfoCache (settle p out w) = cacheDenoInfo info (resolveDenoInfoCache w)"
      unfolding settle_fields(1) [OF assms] using info by (simp add: tryBlock_cases)
    with info(2) show ?thesis by simp
  qed
  show ?thesis using a b c d e by blast
qed

lemma resolveAwait_notFound:
  assumes wf: "wellFormed w"
  shows "(fst (resolveAwait spec out w) = Some (Inl SpecifierNotFound))
           = (resolveDenoInfoCache w spec = None
              \<and> (\<exists>info. denoInfo out = Inr info
                    \<and> cacheDenoInfo info (resolveDenoInfoCache w) spec = None))"
proof (cases "resolveDenoInfoCache w spec")
  case (Some c)
  then show ?thesis unfolding resolveAwait_hit [OF Some] by simp
next
  case None
  have "fst (resolveAwait spec out w) = Some (fst (tryBlock spec out (resolveDenoInfoCache w)))"
    using resolveAwait_miss [OF wf None, of out] by simp
  then show ?thesis
    using tryBlock_notFound [of spec out "resolveDenoInfoCache w"] None by simp
qed

lemma tryBlock_written:
  assumes "(spec, e) \<in> set (writes info)"
    and "\<And>e'. (spec, e') \<in> set (writes info) \<Longrightarrow> e' = e"
  shows "tryBlock spec (Exited code (ReportJSON info)) c = (Inr e, cacheDenoInfo info c)"
proof -
  have "cacheDenoInfo info c spec = Some e"
    unfolding cacheDenoInfo_setAll using assms by (rule setAll_unique)
  then show ?thesis by (simp add: tryBlock_cases)
qed




subsection \<open>The last write to a key\<close>

lemma setAll_last_segment:
  assumes "(k, v) \<in> set ys" and "\<And>v'. (k, v') \<in> set ys \<Longrightarrow> v' = v"
  shows "setAll (xs @ ys) c k = Some v"
  unfolding setAll_append using assms by (rule setAll_unique)

lemma moduleWrites_append:
  "moduleWrites rds (xs @ ys) = moduleWrites rds xs @ moduleWrites rds ys"
  by (induction xs) (simp_all split: option.splits)

lemma cacheDenoInfo_last:
  assumes split: "modules info = pre @ details # post"
    and d: "specifier details = Some s" "mediaType details = Some t" "npm_package details = None"
    and key: "replace s ''file://'' '''' = k
              \<or> (\<exists>key. (key, s) \<in> set (redirects info) \<and> replace key ''file://'' '''' = k)"
    and later: "\<And>d' s' t'. d' \<in> set post \<Longrightarrow> specifier d' = Some s' \<Longrightarrow>
                 mediaType d' = Some t' \<Longrightarrow> npm_package d' = None \<Longrightarrow>
                 replace s' ''file://'' '''' = k
                   \<or> (\<exists>key. (key, s') \<in> set (redirects info) \<and> replace key ''file://'' '''' = k) \<Longrightarrow>
                 \<lparr>localPath = local d', redirected = s', moduleType = Some (mapMediaType t')\<rparr>
                   = \<lparr>localPath = local details, redirected = s, moduleType = Some (mapMediaType t)\<rparr>"
  shows "cacheDenoInfo info c k
           = Some \<lparr>localPath = local details, redirected = s, moduleType = Some (mapMediaType t)\<rparr>"
proof -
  let ?v = "\<lparr>localPath = local details, redirected = s, moduleType = Some (mapMediaType t)\<rparr>"
  let ?ys = "moduleWrites (redirects info) (details # post)"
  have w: "writes info = moduleWrites (redirects info) pre @ ?ys"
    unfolding writes_def split moduleWrites_append ..
  have mem: "(k, ?v) \<in> set ?ys"
    unfolding moduleWrites_mem using d key by (intro exI [of _ details] exI [of _ s] exI [of _ t]) auto
  have uniq: "v' = ?v" if "(k, v') \<in> set ?ys" for v'
  proof -
    from that obtain d' s' t' where d': "d' \<in> set (details # post)" "specifier d' = Some s'"
      "npm_package d' = None" "mediaType d' = Some t'"
      and v': "v' = \<lparr>localPath = local d', redirected = s', moduleType = Some (mapMediaType t')\<rparr>"
      and k': "k = replace s' ''file://'' '''' \<or>
         (\<exists>key. (key, s') \<in> set (redirects info) \<and> k = replace key ''file://'' '''')"
      unfolding moduleWrites_mem by blast
    show ?thesis
    proof (cases "d' = details")
      case True
      with d d' v' show ?thesis by simp
    next
      case False
      with d' have "d' \<in> set post" by simp
      from later [OF this d'(2) d'(4) d'(3)] k' v' show ?thesis by auto
    qed
  qed
  show ?thesis unfolding cacheDenoInfo_setAll w using mem uniq by (rule setAll_last_segment)
qed

lemma cacheDenoInfo_last_writer:
  assumes "cacheDenoInfo info c k = Some v" and "c k \<noteq> Some v"
  shows "\<exists>pre details post s t. modules info = pre @ details # post
           \<and> specifier details = Some s \<and> mediaType details = Some t \<and> npm_package details = None
           \<and> (replace s ''file://'' '''' = k
                \<or> (\<exists>key. (key, s) \<in> set (redirects info) \<and> replace key ''file://'' '''' = k))
           \<and> v = \<lparr>localPath = local details, redirected = s, moduleType = Some (mapMediaType t)\<rparr>
           \<and> (\<forall>d' \<in> set post. \<not> (\<exists>s' t'. specifier d' = Some s' \<and> mediaType d' = Some t'
                 \<and> npm_package d' = None
                 \<and> (replace s' ''file://'' '''' = k
                      \<or> (\<exists>key. (key, s') \<in> set (redirects info) \<and> replace key ''file://'' '''' = k))))"
proof -
  let ?W = "\<lambda>d :: ModuleInfo. \<exists>s t. specifier d = Some s \<and> mediaType d = Some t
                 \<and> npm_package d = None
                 \<and> (replace s ''file://'' '''' = k
                      \<or> (\<exists>key. (key, s) \<in> set (redirects info) \<and> replace key ''file://'' '''' = k))"
  have "k \<in> writtenKeys info"
  proof (rule ccontr)
    assume "k \<notin> writtenKeys info"
    from cacheDenoInfo_other [OF this, of c] assms show False by simp
  qed
  then have "\<exists>d \<in> set (modules info). ?W d" unfolding writtenKeys_iff by blast
  from split_list_last_prop [OF this]
  obtain pre details post where split: "modules info = pre @ details # post"
    and W: "?W details" and none: "\<forall>z \<in> set post. \<not> ?W z" by blast
  from W obtain s t where d: "specifier details = Some s" "mediaType details = Some t"
    "npm_package details = None"
    and key: "replace s ''file://'' '''' = k
              \<or> (\<exists>key. (key, s) \<in> set (redirects info) \<and> replace key ''file://'' '''' = k)"
    by blast
  have "cacheDenoInfo info c k
           = Some \<lparr>localPath = local details, redirected = s, moduleType = Some (mapMediaType t)\<rparr>"
    using split d key
  proof (rule cacheDenoInfo_last)
    fix d' s' t'
    assume "d' \<in> set post" "specifier d' = Some s'" "mediaType d' = Some t'" "npm_package d' = None"
      "replace s' ''file://'' '''' = k
         \<or> (\<exists>key. (key, s') \<in> set (redirects info) \<and> replace key ''file://'' '''' = k)"
    with none have False by blast
    then show "\<lparr>localPath = local d', redirected = s', moduleType = Some (mapMediaType t')\<rparr>
                   = \<lparr>localPath = local details, redirected = s, moduleType = Some (mapMediaType t)\<rparr>" ..
  qed
  with assms(1) have v: "v = \<lparr>localPath = local details, redirected = s, moduleType = Some (mapMediaType t)\<rparr>"
    by simp
  from split d key v none show ?thesis by blast
qed

subsection \<open>The keys of a printed report\<close>

lemma replace_keeps_head:
  assumes "c \<noteq> CHR ''f''"
  shows "\<not> startsWith (replace (c # cs) ''file://'' '''') ''file://''"
  using assms by (simp add: startsWith_def)

lemma urlSpecifier_stored:
  assumes "urlSpecifier k"
  shows "\<not> startsWith (replace k ''file://'' '''') ''file://''"
proof (cases "fileUrl k")
  case True
  then have sw: "startsWith k ''file://''"
    and colon: "CHR '':'' \<notin> set (takeWhile (\<lambda>c. c \<noteq> CHR ''/'') (drop 7 k))"
    unfolding fileUrl_def by blast+
  show ?thesis
  proof
    assume "startsWith (replace k ''file://'' '''') ''file://''"
    then have "startsWith (drop 7 k) ''file://''" unfolding replace_prefix [OF sw] .
    then obtain r where "drop 7 k = ''file://'' @ r"
      unfolding startsWith_def by (metis append_take_drop_id)
    with colon show False by simp
  qed
next
  case False
  with assms obtain scheme where
    "scheme \<in> set [''http:'', ''https:'', ''jsr:'', ''npm:'', ''node:'', ''data:'', ''blob:'']"
    "startsWith k scheme"
    unfolding urlSpecifier_def by blast
  then obtain c cs where "k = c # cs" "c \<noteq> CHR ''f''"
    by (cases k) (auto simp: startsWith_def)
  then show ?thesis using replace_keeps_head by simp
qed

lemma printedReport_keys:
  assumes "printedReport info" and "k \<in> writtenKeys info"
  shows "\<not> startsWith k ''file://''"
proof -
  from assms(2) obtain d s mt where d: "d \<in> set (modules info)" "specifier d = Some s"
    "npm_package d = None" "mediaType d = Some mt"
    and k: "k = replace s ''file://'' '''' \<or>
         (\<exists>key. (key, s) \<in> set (redirects info) \<and> k = replace key ''file://'' '''')"
    unfolding writtenKeys_iff by blast
  from assms(1) d have u: "urlSpecifier s"
    and r: "\<forall>(key, val) \<in> set (redirects info). val = s \<longrightarrow> urlSpecifier key"
    unfolding printedReport_def by fastforce+
  from k show ?thesis
  proof
    assume "k = replace s ''file://'' ''''"
    with urlSpecifier_stored [OF u] show ?thesis by simp
  next
    assume "\<exists>key. (key, s) \<in> set (redirects info) \<and> k = replace key ''file://'' ''''"
    then obtain key where key: "(key, s) \<in> set (redirects info)" "k = replace key ''file://'' ''''"
      by blast
    with r have "urlSpecifier key" by fastforce
    from urlSpecifier_stored [OF this] key(2) show ?thesis by simp
  qed
qed

section \<open>The claims\<close>

subsection \<open>C1: concurrent resolutions of one specifier\<close>

text \<open>
  C1. In a state the plugin can reach, let the cache have no entry for a specifier and let
  \<open>denoResolve\<close> be called \<open>n \<ge> 2\<close> times for it before any of the callers gives up
  control. All calls return one promise, the only computation in flight for the specifier.
  Together they call \<open>denoInfo\<close> once, or not at all when the computation was already in
  flight before the first of them. Whatever runs before the command of that promise
  finishes, the promise stays the only computation in flight for the specifier and
  \<open>denoInfo\<close> is not called for the specifier again. When the command finishes, every
  caller receives, then and ever after, the outcome of the \<open>try\<close> block on the cache of
  that moment. When the report stores one entry under the specifier, every caller receives
  this entry and the cache holds it under the specifier; when \<open>denoInfo\<close> fails, every
  caller receives its exception. No later state has two computations in flight for one
  specifier.
\<close>

theorem concurrent_resolutions_share_one_invocation:
  assumes "w = exec es newPlugin" and "resolveDenoInfoCache w spec = None" and "2 \<le> n"
    and "resolveMany n spec w = (ps, w')"
  shows "\<exists>p. length ps = n \<and> set ps = {p}
           \<and> inFlight spec w' = [p]
           \<and> denoInfoCalls w'
               = denoInfoCalls w @ (if resolvePromises w spec = None then [spec] else [])
           \<and> (\<forall>es'. (\<forall>out. Finish p out \<notin> set es') \<longrightarrow>
                  inFlight spec (exec es' w') = [p]
                  \<and> count_list (denoInfoCalls (exec es' w')) spec
                      = count_list (denoInfoCalls w') spec
                  \<and> (\<forall>out es''. \<forall>q \<in> set ps.
                        awaited q (exec es'' (settle p out (exec es' w')))
                          = Some (fst (tryBlock spec out (resolveDenoInfoCache (exec es' w')))))
                  \<and> (\<forall>code info e.
                        (spec, e) \<in> set (writes info)
                        \<and> (\<forall>e'. (spec, e') \<in> set (writes info) \<longrightarrow> e' = e) \<longrightarrow>
                          (\<forall>q \<in> set ps.
                             awaited q (settle p (Exited code (ReportJSON info)) (exec es' w'))
                               = Some (Inr e))
                          \<and> resolveDenoInfoCache
                               (settle p (Exited code (ReportJSON info)) (exec es' w')) spec
                               = Some e)
                  \<and> (\<forall>out x. denoInfo out = Inl x \<longrightarrow>
                        (\<forall>q \<in> set ps. awaited q (settle p out (exec es' w')) = Some (Inl x))))
           \<and> (\<forall>es' s. length (inFlight s (exec es' w')) \<le> 1)"
proof -
  have wf: "wellFormed w" unfolding assms(1) by (rule reachable_wellFormed)
  from assms(3) obtain m where n: "n = Suc m" by (cases n) auto
  let ?p = "fst (denoResolve spec w)"
  note rm = resolveMany_miss [OF assms(2), of m]
  from rm assms(4) n have ps: "ps = replicate n ?p" and w': "w' = snd (denoResolve spec w)"
    by simp_all
  have wf': "wellFormed w'" unfolding w' using wf by (rule wellFormed_denoResolve)
  have rp: "resolvePromises w' spec = Some ?p" unfolding w' using rm by blast
  have a: "length ps = n" unfolding ps by simp
  have b: "set ps = {?p}" unfolding ps using assms(3) by auto
  have c: "inFlight spec w' = [?p]" using inFlight_entry [OF wf'] rp by blast
  have d: "denoInfoCalls w'
      = denoInfoCalls w @ (if resolvePromises w spec = None then [spec] else [])"
    unfolding w' using rm by blast
  have e: "inFlight spec (exec es' w') = [?p]
           \<and> count_list (denoInfoCalls (exec es' w')) spec = count_list (denoInfoCalls w') spec
           \<and> (\<forall>out es''. \<forall>q \<in> set ps.
                 awaited q (exec es'' (settle ?p out (exec es' w')))
                   = Some (fst (tryBlock spec out (resolveDenoInfoCache (exec es' w')))))
           \<and> (\<forall>code info e.
                 (spec, e) \<in> set (writes info)
                 \<and> (\<forall>e'. (spec, e') \<in> set (writes info) \<longrightarrow> e' = e) \<longrightarrow>
                   (\<forall>q \<in> set ps.
                      awaited q (settle ?p (Exited code (ReportJSON info)) (exec es' w'))
                        = Some (Inr e))
                   \<and> resolveDenoInfoCache
                        (settle ?p (Exited code (ReportJSON info)) (exec es' w')) spec
                        = Some e)
           \<and> (\<forall>out x. denoInfo out = Inl x \<longrightarrow>
                 (\<forall>q \<in> set ps. awaited q (settle ?p out (exec es' w')) = Some (Inl x)))"
    if quiet: "\<forall>out. Finish ?p out \<notin> set es'" for es'
  proof -
    let ?v = "exec es' w'"
    have wfv: "wellFormed ?v" using wf' by (rule wellFormed_exec)
    have keep: "resolvePromises ?v spec = Some ?p
        \<and> count_list (denoInfoCalls ?v) spec = count_list (denoInfoCalls w') spec"
      using wf' rp quiet by (intro inFlight_exec) auto
    then have rpv: "resolvePromises ?v spec = Some ?p" by blast
    from wellFormedD1 [OF wfv rpv]
    have p: "?p < length (promises ?v)" "promises ?v ! ?p = Pending spec" by blast+
    have fl: "inFlight spec ?v = [?p]" using inFlight_entry [OF wfv] rpv by blast
    have aw: "awaited ?p (settle ?p out ?v)
        = Some (fst (tryBlock spec out (resolveDenoInfoCache ?v)))" for out
      using p by (rule settle_awaited)
    have later: "\<forall>out es''. \<forall>q \<in> set ps.
        awaited q (exec es'' (settle ?p out ?v))
          = Some (fst (tryBlock spec out (resolveDenoInfoCache ?v)))"
      unfolding b using aw awaited_exec by blast
    have written: "(\<forall>q \<in> set ps.
          awaited q (settle ?p (Exited code (ReportJSON info)) ?v) = Some (Inr e))
        \<and> resolveDenoInfoCache (settle ?p (Exited code (ReportJSON info)) ?v) spec = Some e"
      if h: "(spec, e) \<in> set (writes info)
             \<and> (\<forall>e'. (spec, e') \<in> set (writes info) \<longrightarrow> e' = e)"
      for code info e
    proof -
      have tb: "tryBlock spec (Exited code (ReportJSON info)) (resolveDenoInfoCache ?v)
          = (Inr e, cacheDenoInfo info (resolveDenoInfoCache ?v))"
        using h by (intro tryBlock_written) blast+
      have "awaited ?p (settle ?p (Exited code (ReportJSON info)) ?v) = Some (Inr e)"
        unfolding aw tb by simp
      moreover have "resolveDenoInfoCache (settle ?p (Exited code (ReportJSON info)) ?v) spec
          = Some e"
        unfolding settle_fields(1) [OF p]
        using tryBlock_entry [of spec "Exited code (ReportJSON info)" "resolveDenoInfoCache ?v" e] tb
        by simp
      ultimately show ?thesis unfolding b by simp
    qed
    have failed: "\<forall>q \<in> set ps. awaited q (settle ?p out ?v) = Some (Inl x)"
      if "denoInfo out = Inl x" for out x
      unfolding b using aw [of out] tryBlock_failure [OF that, of spec "resolveDenoInfoCache ?v"]
      by simp
    show ?thesis
      apply (intro conjI)
          apply (rule fl)
         apply (rule conjunct2 [OF keep])
        apply (rule later)
       apply (intro allI impI)
       apply (rule written)
       apply assumption
      apply (intro allI impI)
      apply (rule failed)
      apply assumption
      done
  qed
  have f: "length (inFlight s (exec es' w')) \<le> 1" for es' s
  proof -
    have "wellFormed (exec es' w')" using wf' by (rule wellFormed_exec)
    then show ?thesis by (rule inFlight_le_one)
  qed
  show ?thesis
    apply (intro exI [of _ ?p] conjI)
         apply (rule a)
        apply (rule b)
       apply (rule c)
      apply (rule d)
     apply (intro allI impI)
     apply (rule e)
     apply assumption
    apply (intro allI)
    apply (rule f)
    done
qed

theorem concurrent_resolutions_share_one_invocation_witness:
  "resolveDenoInfoCache (exec [] newPlugin) ''jsr:@std/path'' = None
   \<and> (2::nat) \<le> 3
   \<and> fst (resolveMany 3 ''jsr:@std/path'' (exec [] newPlugin)) = [0, 0, 0]
   \<and> denoInfoCalls (snd (resolveMany 3 ''jsr:@std/path'' (exec [] newPlugin)))
       = [''jsr:@std/path'']
   \<and> inFlight ''jsr:@std/path''
        (exec [Call ''jsr:@std/fs'', Call ''jsr:@std/path'']
          (snd (resolveMany 3 ''jsr:@std/path'' (exec [] newPlugin)))) = [0]
   \<and> awaited 0
        (settle 0
          (Exited 0 (ReportJSON
            \<lparr>redirects = [(''jsr:@std/path'', ''https://jsr.io/@std/path/1.0.8/mod.ts'')],
             modules = [\<lparr>specifier = Some ''https://jsr.io/@std/path/1.0.8/mod.ts'',
                         local = Some ''/cache/mod.ts'', mediaType = Some TypeScript,
                         npmPackage = None, npm_package = None, error = None\<rparr>]\<rparr>))
          (exec [Call ''jsr:@std/fs'', Call ''jsr:@std/path'']
            (snd (resolveMany 3 ''jsr:@std/path'' (exec [] newPlugin)))))
       = Some (Inr \<lparr>localPath = Some ''/cache/mod.ts'',
                    redirected = ''https://jsr.io/@std/path/1.0.8/mod.ts'',
                    moduleType = Some ModuleType.Ts\<rparr>)
   \<and> resolveDenoInfoCache
        (settle 0
          (Exited 0 (ReportJSON
            \<lparr>redirects = [(''jsr:@std/path'', ''https://jsr.io/@std/path/1.0.8/mod.ts'')],
             modules = [\<lparr>specifier = Some ''https://jsr.io/@std/path/1.0.8/mod.ts'',
                         local = Some ''/cache/mod.ts'', mediaType = Some TypeScript,
                         npmPackage = None, npm_package = None, error = None\<rparr>]\<rparr>))
          (exec [Call ''jsr:@std/fs'', Call ''jsr:@std/path'']
            (snd (resolveMany 3 ''jsr:@std/path'' (exec [] newPlugin))))) ''jsr:@std/path''
       = Some \<lparr>localPath = Some ''/cache/mod.ts'',
               redirected = ''https://jsr.io/@std/path/1.0.8/mod.ts'',
               moduleType = Some ModuleType.Ts\<rparr>"
proof -
  let ?spec = "''jsr:@std/path''"
  let ?w = "exec [] newPlugin"
  let ?w' = "snd (resolveMany 3 ?spec ?w)"
  let ?es = "[Call ''jsr:@std/fs'', Call ?spec]"
  let ?info = "\<lparr>redirects = [(''jsr:@std/path'', ''https://jsr.io/@std/path/1.0.8/mod.ts'')],
             modules = [\<lparr>specifier = Some ''https://jsr.io/@std/path/1.0.8/mod.ts'',
                         local = Some ''/cache/mod.ts'', mediaType = Some TypeScript,
                         npmPackage = None, npm_package = None, error = None\<rparr>]\<rparr>"
  let ?e = "\<lparr>localPath = Some ''/cache/mod.ts'',
               redirected = ''https://jsr.io/@std/path/1.0.8/mod.ts'',
               moduleType = Some ModuleType.Ts\<rparr>"
  have h2: "resolveDenoInfoCache ?w ?spec = None" by (simp add: exec_def newPlugin_def)
  have h3: "(2::nat) \<le> 3" by simp
  have idle: "resolvePromises ?w ?spec = None" by (simp add: exec_def newPlugin_def)
  have ps: "fst (resolveMany 3 ?spec ?w) = [0, 0, 0]"
    by (simp add: eval_nat_numeral exec_def newPlugin_def denoResolve_def split_beta)
  have h4: "resolveMany 3 ?spec ?w = ([0, 0, 0], ?w')" using ps by (simp add: prod_eq_iff)
  have wr: "(?spec, ?e) \<in> set (writes ?info)
      \<and> (\<forall>e'. (?spec, e') \<in> set (writes ?info) \<longrightarrow> e' = ?e)"
    by (simp add: writes_def startsWith_def)
  from concurrent_resolutions_share_one_invocation [OF refl h2 h3 h4]
  obtain p where p: "set [0, 0, 0 :: nat] = {p}"
    and c: "denoInfoCalls ?w' = denoInfoCalls ?w
        @ (if resolvePromises ?w ?spec = None then [?spec] else [])"
    and q: "\<forall>es'. (\<forall>out. Finish p out \<notin> set es') \<longrightarrow>
        inFlight ?spec (exec es' ?w') = [p]
        \<and> count_list (denoInfoCalls (exec es' ?w')) ?spec
            = count_list (denoInfoCalls ?w') ?spec
        \<and> (\<forall>out es''. \<forall>q \<in> set [0, 0, 0 :: nat].
              awaited q (exec es'' (settle p out (exec es' ?w')))
                = Some (fst (tryBlock ?spec out (resolveDenoInfoCache (exec es' ?w')))))
        \<and> (\<forall>code info e.
              (?spec, e) \<in> set (writes info)
              \<and> (\<forall>e'. (?spec, e') \<in> set (writes info) \<longrightarrow> e' = e) \<longrightarrow>
                (\<forall>q \<in> set [0, 0, 0 :: nat].
                   awaited q (settle p (Exited code (ReportJSON info)) (exec es' ?w'))
                     = Some (Inr e))
                \<and> resolveDenoInfoCache
                     (settle p (Exited code (ReportJSON info)) (exec es' ?w')) ?spec
                     = Some e)
        \<and> (\<forall>out x. denoInfo out = Inl x \<longrightarrow>
              (\<forall>q \<in> set [0, 0, 0 :: nat].
                 awaited q (settle p out (exec es' ?w')) = Some (Inl x)))"
    by (elim exE conjE) (rule that)
  from p have p0: "p = 0" by auto
  have quiet: "\<forall>out. Finish 0 out \<notin> set ?es" by simp
  from q p0 quiet have fl: "inFlight ?spec (exec ?es ?w') = [0]" by blast
  from q p0 quiet wr
  have got: "(\<forall>q \<in> set [0, 0, 0 :: nat].
                   awaited q (settle 0 (Exited 0 (ReportJSON ?info)) (exec ?es ?w'))
                     = Some (Inr ?e))
              \<and> resolveDenoInfoCache
                     (settle 0 (Exited 0 (ReportJSON ?info)) (exec ?es ?w')) ?spec
                     = Some ?e"
    by blast
  then have aw: "awaited 0 (settle 0 (Exited 0 (ReportJSON ?info)) (exec ?es ?w')) = Some (Inr ?e)"
    by simp
  have calls0: "denoInfoCalls ?w = []" by (simp add: exec_def newPlugin_def)
  from c idle calls0 have calls: "denoInfoCalls ?w' = [?spec]" by simp
  from h2 h3 ps calls fl aw got show ?thesis by blast
qed

subsection \<open>C2: resolving a specifier twice in sequence\<close>




subsection \<open>C3: failures of the discovery client\<close>

text \<open>
  C3, as amended. \<open>denoInfo\<close> fails when the command cannot be run and when its standard
  output is not JSON, whatever the exit code; the failure settles the promise of the
  computation, the cache is untouched, and \<open>resolveId\<close> and \<open>load\<close> rethrow it to their
  caller. The exit code is never read: standard output that is the JSON of a report is a
  successful discovery for every exit code.
\<close>

theorem discovery_failures_surface:
  assumes "p < length (promises w)" and "promises w ! p = Pending spec"
    and "out = CommandError \<or> out = Exited code NotJSON"
  shows "(\<exists>e. denoInfo out = Inl e \<and> DiscoveryError e
            \<and> awaited p (settle p out w) = Some (Inl e)
            \<and> resolveIdResume (Inl e) = Inl e
            \<and> loadResume files (Inl e) = Inl e)
         \<and> resolveDenoInfoCache (settle p out w) = resolveDenoInfoCache w
         \<and> (\<forall>code' info. denoInfo (Exited code' (ReportJSON info)) = Inr info)"
proof -
  from assms(3) obtain e where e: "denoInfo out = Inl e" by auto
  have de: "DiscoveryError e" using e by (rule denoInfo_DiscoveryError)
  have tb: "tryBlock spec out (resolveDenoInfoCache w) = (Inl e, resolveDenoInfoCache w)"
    using e by (rule tryBlock_failure)
  have a: "awaited p (settle p out w) = Some (Inl e)"
    unfolding settle_awaited [OF assms(1,2)] tb by simp
  have c: "resolveDenoInfoCache (settle p out w) = resolveDenoInfoCache w"
    unfolding settle_fields(1) [OF assms(1,2)] tb by simp
  have r: "resolveIdResume (Inl e) = Inl e" by (simp add: resolveIdResume_def)
  have l: "loadResume files (Inl e) = Inl e" by (simp add: loadResume_def)
  show ?thesis using e de a c r l by simp
qed

theorem discovery_failures_surface_witness:
  "promises (snd (denoResolve ''jsr:@std/path'' newPlugin)) ! 0 = Pending ''jsr:@std/path''
   \<and> denoInfo (Exited 1 NotJSON) = Inl JSONSyntaxError
   \<and> awaited 0 (settle 0 (Exited 1 NotJSON) (snd (denoResolve ''jsr:@std/path'' newPlugin)))
        = Some (Inl JSONSyntaxError)
   \<and> loadResume Map.empty (Inl JSONSyntaxError) = Inl JSONSyntaxError"
proof -
  let ?w = "snd (denoResolve ''jsr:@std/path'' newPlugin)"
  have h1: "0 < length (promises ?w)" by (simp add: denoResolve_def newPlugin_def)
  have h2: "promises ?w ! 0 = Pending ''jsr:@std/path''" by (simp add: denoResolve_def newPlugin_def)
  have h3: "Exited 1 NotJSON = CommandError \<or> Exited 1 NotJSON = Exited 1 NotJSON" by simp
  from discovery_failures_surface [OF h1 h2 h3, of Map.empty]
  obtain e where "denoInfo (Exited 1 NotJSON) = Inl e"
    and "awaited 0 (settle 0 (Exited 1 NotJSON) ?w) = Some (Inl e)"
    and "loadResume Map.empty (Inl e) = Inl e"
    by blast
  then show ?thesis using h2 by simp
qed

text \<open>
  C3 as stated fails: a command that exits with code 1 and writes a report to standard
  output is a successful discovery, and the resolution it serves is fulfilled.
\<close>

theorem nonzero_exit_with_report_counterexample:
  "denoInfo (Exited 1 (ReportJSON \<lparr>redirects = [], modules = []\<rparr>))
     = Inr \<lparr>redirects = [], modules = []\<rparr>
   \<and> awaited 0 (settle 0
        (Exited 1 (ReportJSON \<lparr>redirects = [],
           modules = [\<lparr>specifier = Some ''jsr:@std/path'', local = Some ''/cache/path.ts'',
                       mediaType = Some TypeScript, npmPackage = None, npm_package = None,
                       error = None\<rparr>]\<rparr>))
        (snd (denoResolve ''jsr:@std/path'' newPlugin)))
     = Some (Inr \<lparr>localPath = Some ''/cache/path.ts'', redirected = ''jsr:@std/path'',
                  moduleType = Some ModuleType.Ts\<rparr>)"
  by (simp add: denoResolve_def newPlugin_def settle_def tryBlock_def cacheDenoInfo_def
      awaited_def startsWith_def)

subsection \<open>C4: a redirect source is stored with the entry of its target\<close>

text \<open>
  C4, as amended. Let a report hold a redirect from \<open>A\<close> to \<open>B\<close>. Every plugin whose cache
  is a projection of the report has under \<open>A\<close> the entry
  \<open>{localPath: P, redirected: B, moduleType: mapMediaType(media type)}\<close> and fulfils a
  resolution of \<open>A\<close> with it without a call of \<open>denoInfo\<close>, if and only if the report is
  as follows. It lists a module record with specifier \<open>B\<close>, local path \<open>P\<close>, a media type
  of that module type and without the key \<open>npm_package\<close>. The entry of the record is stored
  under \<open>A\<close>: removing \<open>file://\<close> leaves \<open>A\<close> as it is, or turns \<open>B\<close> or another redirect
  source of \<open>B\<close> into \<open>A\<close>. And every projected record listed after this record whose
  entry is stored under \<open>A\<close>, by its specifier or by a redirect to it, carries the same
  entry. Records listed before it are overwritten and do not matter.
\<close>

theorem redirect_source_resolves_to_target:
  assumes "(A, B) \<in> set (redirects info)"
  shows "(\<forall>c w. resolveDenoInfoCache w = cacheDenoInfo info c \<longrightarrow>
            resolveDenoInfoCache w A
              = Some \<lparr>localPath = Some P, redirected = B, moduleType = Some (mapMediaType mt)\<rparr>
            \<and> awaited (fst (denoResolve A w)) (snd (denoResolve A w))
              = Some (Inr \<lparr>localPath = Some P, redirected = B, moduleType = Some (mapMediaType mt)\<rparr>)
            \<and> denoInfoCalls (snd (denoResolve A w)) = denoInfoCalls w)
         = (\<exists>pre details post t. modules info = pre @ details # post
              \<and> specifier details = Some B \<and> local details = Some P
              \<and> mediaType details = Some t \<and> mapMediaType t = mapMediaType mt
              \<and> npm_package details = None
              \<and> (replace A ''file://'' '''' = A \<or> replace B ''file://'' '''' = A
                   \<or> (\<exists>key. (key, B) \<in> set (redirects info) \<and> replace key ''file://'' '''' = A))
              \<and> (\<forall>d \<in> set post. \<forall>s' t'.
                    specifier d = Some s' \<and> mediaType d = Some t' \<and> npm_package d = None
                    \<and> (replace s' ''file://'' '''' = A
                         \<or> (\<exists>key. (key, s') \<in> set (redirects info) \<and> replace key ''file://'' '''' = A))
                    \<longrightarrow> s' = B \<and> local d = Some P \<and> mapMediaType t' = mapMediaType mt))"
  (is "?L = ?R")
proof
  let ?e = "\<lparr>localPath = Some P, redirected = B, moduleType = Some (mapMediaType mt)\<rparr>"
  assume L: ?L
  let ?w = "newPlugin\<lparr>resolveDenoInfoCache := cacheDenoInfo info Map.empty\<rparr>"
  have "resolveDenoInfoCache ?w = cacheDenoInfo info Map.empty" by simp
  with L have "resolveDenoInfoCache ?w A = Some ?e" by blast
  then have "cacheDenoInfo info Map.empty A = Some ?e" by simp
  moreover have "Map.empty A \<noteq> Some ?e" by simp
  ultimately have "\<exists>pre details post s t. modules info = pre @ details # post
           \<and> specifier details = Some s \<and> mediaType details = Some t \<and> npm_package details = None
           \<and> (replace s ''file://'' '''' = A
                \<or> (\<exists>key. (key, s) \<in> set (redirects info) \<and> replace key ''file://'' '''' = A))
           \<and> ?e = \<lparr>localPath = local details, redirected = s, moduleType = Some (mapMediaType t)\<rparr>
           \<and> (\<forall>d' \<in> set post. \<not> (\<exists>s' t'. specifier d' = Some s' \<and> mediaType d' = Some t'
                 \<and> npm_package d' = None
                 \<and> (replace s' ''file://'' '''' = A
                      \<or> (\<exists>key. (key, s') \<in> set (redirects info) \<and> replace key ''file://'' '''' = A))))"
    by (rule cacheDenoInfo_last_writer)
  then obtain pre details post s t where split: "modules info = pre @ details # post"
    and d: "specifier details = Some s" "mediaType details = Some t" "npm_package details = None"
    and key: "replace s ''file://'' '''' = A
                \<or> (\<exists>key. (key, s) \<in> set (redirects info) \<and> replace key ''file://'' '''' = A)"
    and v: "?e = \<lparr>localPath = local details, redirected = s, moduleType = Some (mapMediaType t)\<rparr>"
    and none: "\<forall>d' \<in> set post. \<not> (\<exists>s' t'. specifier d' = Some s' \<and> mediaType d' = Some t'
                 \<and> npm_package d' = None
                 \<and> (replace s' ''file://'' '''' = A
                      \<or> (\<exists>key. (key, s') \<in> set (redirects info) \<and> replace key ''file://'' '''' = A)))"
    by (elim exE conjE) (rule that)
  from v have s: "s = B" and l: "local details = Some P" and m: "mapMediaType t = mapMediaType mt"
    by simp_all
  show ?R
    apply (rule exI [of _ pre], rule exI [of _ details], rule exI [of _ post], rule exI [of _ t])
    using split d key none l m unfolding s by blast
next
  let ?e = "\<lparr>localPath = Some P, redirected = B, moduleType = Some (mapMediaType mt)\<rparr>"
  assume ?R
  then obtain pre details post t where split: "modules info = pre @ details # post"
    and d: "specifier details = Some B" "mediaType details = Some t" "npm_package details = None"
    and l: "local details = Some P" and m: "mapMediaType t = mapMediaType mt"
    and key: "replace A ''file://'' '''' = A \<or> replace B ''file://'' '''' = A
                   \<or> (\<exists>key. (key, B) \<in> set (redirects info) \<and> replace key ''file://'' '''' = A)"
    and later: "\<forall>d \<in> set post. \<forall>s' t'.
                    specifier d = Some s' \<and> mediaType d = Some t' \<and> npm_package d = None
                    \<and> (replace s' ''file://'' '''' = A
                         \<or> (\<exists>key. (key, s') \<in> set (redirects info) \<and> replace key ''file://'' '''' = A))
                    \<longrightarrow> s' = B \<and> local d = Some P \<and> mapMediaType t' = mapMediaType mt"
    by blast
  from key assms have key': "replace B ''file://'' '''' = A
                   \<or> (\<exists>key. (key, B) \<in> set (redirects info) \<and> replace key ''file://'' '''' = A)"
    by blast
  have proj: "cacheDenoInfo info c A = Some ?e" for c
  proof -
    have "cacheDenoInfo info c A
           = Some \<lparr>localPath = local details, redirected = B, moduleType = Some (mapMediaType t)\<rparr>"
      using split d key'
    proof (rule cacheDenoInfo_last)
      fix d' s' t'
      assume a: "d' \<in> set post" "specifier d' = Some s'" "mediaType d' = Some t'" "npm_package d' = None"
        "replace s' ''file://'' '''' = A
           \<or> (\<exists>key. (key, s') \<in> set (redirects info) \<and> replace key ''file://'' '''' = A)"
      with later have "s' = B \<and> local d' = Some P \<and> mapMediaType t' = mapMediaType mt" by blast
      then show "\<lparr>localPath = local d', redirected = s', moduleType = Some (mapMediaType t')\<rparr>
                   = \<lparr>localPath = local details, redirected = B, moduleType = Some (mapMediaType t)\<rparr>"
        using l m by simp
    qed
    then show ?thesis unfolding l m .
  qed
  show ?L
  proof (intro allI impI)
    fix c and w :: DenoLoaderPlugin
    assume w: "resolveDenoInfoCache w = cacheDenoInfo info c"
    have hit: "resolveDenoInfoCache w A = Some ?e" unfolding w by (rule proj)
    have "denoInfoCalls (snd (denoResolve A w)) = denoInfoCalls w"
      unfolding denoResolve_hit [OF hit] by simp
    with hit awaited_hit [OF hit]
    show "resolveDenoInfoCache w A = Some ?e
            \<and> awaited (fst (denoResolve A w)) (snd (denoResolve A w)) = Some (Inr ?e)
            \<and> denoInfoCalls (snd (denoResolve A w)) = denoInfoCalls w" by simp
  qed
qed

theorem redirect_source_resolves_to_target_witness:
  "resolveDenoInfoCache
        (step (Seed \<lparr>redirects = [(''jsr:@std/path'', ''https://jsr.io/@std/path/1.0.8/mod.js'')],
                     modules = [\<lparr>specifier = Some ''jsr:@std/path'',
                                 local = Some ''/tmp/a.js'', mediaType = Some JavaScript,
                                 npmPackage = None, npm_package = None, error = None\<rparr>,
                                \<lparr>specifier = Some ''https://jsr.io/@std/path/1.0.8/mod.js'',
                                 local = Some ''/tmp/b.js'', mediaType = Some JavaScript,
                                 npmPackage = None, npm_package = None, error = None\<rparr>]\<rparr>)
           newPlugin) ''jsr:@std/path''
     = Some \<lparr>localPath = Some ''/tmp/b.js'',
             redirected = ''https://jsr.io/@std/path/1.0.8/mod.js'',
             moduleType = Some ModuleType.Js\<rparr>
   \<and> awaited (fst (denoResolve ''jsr:@std/path''
        (step (Seed \<lparr>redirects = [(''jsr:@std/path'', ''https://jsr.io/@std/path/1.0.8/mod.js'')],
                     modules = [\<lparr>specifier = Some ''jsr:@std/path'',
                                 local = Some ''/tmp/a.js'', mediaType = Some JavaScript,
                                 npmPackage = None, npm_package = None, error = None\<rparr>,
                                \<lparr>specifier = Some ''https://jsr.io/@std/path/1.0.8/mod.js'',
                                 local = Some ''/tmp/b.js'', mediaType = Some JavaScript,
                                 npmPackage = None, npm_package = None, error = None\<rparr>]\<rparr>)
           newPlugin)))
       (snd (denoResolve ''jsr:@std/path''
        (step (Seed \<lparr>redirects = [(''jsr:@std/path'', ''https://jsr.io/@std/path/1.0.8/mod.js'')],
                     modules = [\<lparr>specifier = Some ''jsr:@std/path'',
                                 local = Some ''/tmp/a.js'', mediaType = Some JavaScript,
                                 npmPackage = None, npm_package = None, error = None\<rparr>,
                                \<lparr>specifier = Some ''https://jsr.io/@std/path/1.0.8/mod.js'',
                                 local = Some ''/tmp/b.js'', mediaType = Some JavaScript,
                                 npmPackage = None, npm_package = None, error = None\<rparr>]\<rparr>)
           newPlugin)))
     = Some (Inr \<lparr>localPath = Some ''/tmp/b.js'',
             redirected = ''https://jsr.io/@std/path/1.0.8/mod.js'',
             moduleType = Some ModuleType.Js\<rparr>)
   \<and> denoInfoCalls (snd (denoResolve ''jsr:@std/path''
        (step (Seed \<lparr>redirects = [(''jsr:@std/path'', ''https://jsr.io/@std/path/1.0.8/mod.js'')],
                     modules = [\<lparr>specifier = Some ''jsr:@std/path'',
                                 local = Some ''/tmp/a.js'', mediaType = Some JavaScript,
                                 npmPackage = None, npm_package = None, error = None\<rparr>,
                                \<lparr>specifier = Some ''https://jsr.io/@std/path/1.0.8/mod.js'',
                                 local = Some ''/tmp/b.js'', mediaType = Some JavaScript,
                                 npmPackage = None, npm_package = None, error = None\<rparr>]\<rparr>)
           newPlugin))) = []"
proof -
  let ?A = "''jsr:@std/path''" and ?B = "''https://jsr.io/@std/path/1.0.8/mod.js''"
  let ?a = "\<lparr>specifier = Some ''jsr:@std/path'',
                                 local = Some ''/tmp/a.js'', mediaType = Some JavaScript,
                                 npmPackage = None, npm_package = None, error = None\<rparr>"
  let ?d = "\<lparr>specifier = Some ''https://jsr.io/@std/path/1.0.8/mod.js'',
                                 local = Some ''/tmp/b.js'', mediaType = Some JavaScript,
                                 npmPackage = None, npm_package = None, error = None\<rparr>"
  let ?info = "\<lparr>redirects = [(?A, ?B)], modules = [?a, ?d]\<rparr>"
  let ?w = "step (Seed ?info) newPlugin"
  have h1: "(?A, ?B) \<in> set (redirects ?info)" by simp
  have rA: "replace ?A ''file://'' '''' = ?A" by (simp add: startsWith_def)
  have shape: "\<exists>pre details post t. modules ?info = pre @ details # post
              \<and> specifier details = Some ?B \<and> local details = Some ''/tmp/b.js''
              \<and> mediaType details = Some t \<and> mapMediaType t = mapMediaType JavaScript
              \<and> npm_package details = None
              \<and> (replace ?A ''file://'' '''' = ?A \<or> replace ?B ''file://'' '''' = ?A
                   \<or> (\<exists>key. (key, ?B) \<in> set (redirects ?info) \<and> replace key ''file://'' '''' = ?A))
              \<and> (\<forall>d \<in> set post. \<forall>s' t'.
                    specifier d = Some s' \<and> mediaType d = Some t' \<and> npm_package d = None
                    \<and> (replace s' ''file://'' '''' = ?A
                         \<or> (\<exists>key. (key, s') \<in> set (redirects ?info) \<and> replace key ''file://'' '''' = ?A))
                    \<longrightarrow> s' = ?B \<and> local d = Some ''/tmp/b.js''
                        \<and> mapMediaType t' = mapMediaType JavaScript)"
    apply (rule exI [of _ "[?a]"], rule exI [of _ ?d], rule exI [of _ "[]"], rule exI [of _ JavaScript])
    using rA by simp
  have cache: "resolveDenoInfoCache ?w = cacheDenoInfo ?info Map.empty" by (simp add: newPlugin_def)
  have calls: "denoInfoCalls ?w = []" by (simp add: newPlugin_def)
  from redirect_source_resolves_to_target [OF h1, of "''/tmp/b.js''" JavaScript, THEN iffD2,
      OF shape, rule_format, OF cache] calls
  show ?thesis by simp
qed

text \<open>
  C4 as stated fails in three ways. A redirect source that contains \<open>file://\<close> is stored
  without it: below, the source \<open>file:///proj/a.js\<close> has no entry, the entry lies under
  \<open>/proj/a.js\<close>, and resolving the source calls \<open>denoInfo\<close>. A record listed after the
  record of \<open>B\<close> may store another entry under \<open>A\<close>: in the second report a record with
  the specifier \<open>A\<close> follows, and resolving \<open>A\<close> returns the entry of that record. And a
  record with the key \<open>npm_package\<close> is not projected: in the third report \<open>A\<close> has no
  entry.
\<close>

theorem redirect_source_counterexample:
  "resolveDenoInfoCache
        (step (Seed \<lparr>redirects = [(''file:///proj/a.js'', ''file:///proj/b.js'')],
                     modules = [\<lparr>specifier = Some ''file:///proj/b.js'',
                                 local = Some ''/tmp/b.js'', mediaType = Some JavaScript,
                                 npmPackage = None, npm_package = None, error = None\<rparr>]\<rparr>)
           newPlugin) ''file:///proj/a.js'' = None
   \<and> resolveDenoInfoCache
        (step (Seed \<lparr>redirects = [(''file:///proj/a.js'', ''file:///proj/b.js'')],
                     modules = [\<lparr>specifier = Some ''file:///proj/b.js'',
                                 local = Some ''/tmp/b.js'', mediaType = Some JavaScript,
                                 npmPackage = None, npm_package = None, error = None\<rparr>]\<rparr>)
           newPlugin) ''/proj/a.js''
     = Some \<lparr>localPath = Some ''/tmp/b.js'', redirected = ''file:///proj/b.js'',
             moduleType = Some ModuleType.Js\<rparr>
   \<and> denoInfoCalls (snd (denoResolve ''file:///proj/a.js''
        (step (Seed \<lparr>redirects = [(''file:///proj/a.js'', ''file:///proj/b.js'')],
                     modules = [\<lparr>specifier = Some ''file:///proj/b.js'',
                                 local = Some ''/tmp/b.js'', mediaType = Some JavaScript,
                                 npmPackage = None, npm_package = None, error = None\<rparr>]\<rparr>)
           newPlugin))) = [''file:///proj/a.js'']
   \<and> resolveDenoInfoCache
        (step (Seed \<lparr>redirects = [(''jsr:@std/path'', ''https://jsr.io/@std/path/1.0.8/mod.js'')],
                     modules = [\<lparr>specifier = Some ''https://jsr.io/@std/path/1.0.8/mod.js'',
                                 local = Some ''/tmp/b.js'', mediaType = Some JavaScript,
                                 npmPackage = None, npm_package = None, error = None\<rparr>,
                                \<lparr>specifier = Some ''jsr:@std/path'',
                                 local = Some ''/tmp/a.js'', mediaType = Some JavaScript,
                                 npmPackage = None, npm_package = None, error = None\<rparr>]\<rparr>)
           newPlugin) ''jsr:@std/path''
     = Some \<lparr>localPath = Some ''/tmp/a.js'', redirected = ''jsr:@std/path'',
             moduleType = Some ModuleType.Js\<rparr>
   \<and> awaited (fst (denoResolve ''jsr:@std/path''
        (step (Seed \<lparr>redirects = [(''jsr:@std/path'', ''https://jsr.io/@std/path/1.0.8/mod.js'')],
                     modules = [\<lparr>specifier = Some ''https://jsr.io/@std/path/1.0.8/mod.js'',
                                 local = Some ''/tmp/b.js'', mediaType = Some JavaScript,
                                 npmPackage = None, npm_package = None, error = None\<rparr>,
                                \<lparr>specifier = Some ''jsr:@std/path'',
                                 local = Some ''/tmp/a.js'', mediaType = Some JavaScript,
                                 npmPackage = None, npm_package = None, error = None\<rparr>]\<rparr>)
           newPlugin)))
       (snd (denoResolve ''jsr:@std/path''
        (step (Seed \<lparr>redirects = [(''jsr:@std/path'', ''https://jsr.io/@std/path/1.0.8/mod.js'')],
                     modules = [\<lparr>specifier = Some ''https://jsr.io/@std/path/1.0.8/mod.js'',
                                 local = Some ''/tmp/b.js'', mediaType = Some JavaScript,
                                 npmPackage = None, npm_package = None, error = None\<rparr>,
                                \<lparr>specifier = Some ''jsr:@std/path'',
                                 local = Some ''/tmp/a.js'', mediaType = Some JavaScript,
                                 npmPackage = None, npm_package = None, error = None\<rparr>]\<rparr>)
           newPlugin)))
     = Some (Inr \<lparr>localPath = Some ''/tmp/a.js'', redirected = ''jsr:@std/path'',
             moduleType = Some ModuleType.Js\<rparr>)
   \<and> resolveDenoInfoCache
        (step (Seed \<lparr>redirects = [(''jsr:@std/path'', ''https://jsr.io/@std/path/1.0.8/mod.js'')],
                     modules = [\<lparr>specifier = Some ''https://jsr.io/@std/path/1.0.8/mod.js'',
                                 local = Some ''/tmp/b.js'', mediaType = Some JavaScript,
                                 npmPackage = None, npm_package = Some ''path@1.0.8'',
                                 error = None\<rparr>]\<rparr>)
           newPlugin) ''jsr:@std/path'' = None"
  by (simp add: newPlugin_def cacheDenoInfo_def denoResolve_def awaited_def startsWith_def Let_def)

subsection \<open>C5: the report does not account for the specifier\<close>

text \<open>
  C5. In every state the plugin can reach, whatever has run since the call: the computation
  of a pending promise ends with \<open>Error("Specifier not found in cache after processing")\<close>
  exactly when \<open>denoInfo\<close> returned a report and the cache, as it is when the command
  finishes and after the projection of the whole report, has no entry under the specifier.
  The step makes no call of \<open>denoInfo\<close> and removes the in-flight entry; the promise keeps
  its value through every later event; after the exception the cache has no entry under the
  specifier. A call that finds a cache entry is fulfilled with it and never fails; a call
  that finds none holds a pending promise for the specifier. For a resolution awaited to its
  end with nothing else running the exception is the outcome exactly when the cache had no
  entry at the call, \<open>denoInfo\<close> returned a report, and the projection left none.
  \<open>resolveId\<close> and \<open>load\<close> rethrow the exception to their caller.
\<close>

theorem cache_consistency_error:
  assumes "w = exec es newPlugin"
  shows "(\<forall>p. p < length (promises w) \<and> promises w ! p = Pending spec \<longrightarrow>
            ((awaited p (settle p out w) = Some (Inl SpecifierNotFound))
               = (\<exists>info. denoInfo out = Inr info
                    \<and> cacheDenoInfo info (resolveDenoInfoCache w) spec = None))
            \<and> denoInfoCalls (settle p out w) = denoInfoCalls w
            \<and> resolvePromises (settle p out w) spec = None
            \<and> (\<forall>es'. awaited p (exec es' (settle p out w)) = awaited p (settle p out w))
            \<and> (awaited p (settle p out w) = Some (Inl SpecifierNotFound) \<longrightarrow>
                 resolveDenoInfoCache (settle p out w) spec = None))
         \<and> (\<forall>c. resolveDenoInfoCache w spec = Some c \<longrightarrow>
              awaited (fst (denoResolve spec w)) (snd (denoResolve spec w)) = Some (Inr c))
         \<and> (resolveDenoInfoCache w spec = None \<longrightarrow>
              fst (denoResolve spec w) < length (promises (snd (denoResolve spec w)))
              \<and> promises (snd (denoResolve spec w)) ! fst (denoResolve spec w) = Pending spec)
         \<and> (fst (resolveAwait spec out w) = Some (Inl SpecifierNotFound))
             = (resolveDenoInfoCache w spec = None
                \<and> (\<exists>info. denoInfo out = Inr info
                      \<and> cacheDenoInfo info (resolveDenoInfoCache w) spec = None))
         \<and> resolveIdResume (Inl SpecifierNotFound) = Inl SpecifierNotFound
         \<and> loadResume files (Inl SpecifierNotFound) = Inl SpecifierNotFound"
proof -
  have wf: "wellFormed w" unfolding assms by (rule reachable_wellFormed)
  have a: "\<forall>p. p < length (promises w) \<and> promises w ! p = Pending spec \<longrightarrow>
            ((awaited p (settle p out w) = Some (Inl SpecifierNotFound))
               = (\<exists>info. denoInfo out = Inr info
                    \<and> cacheDenoInfo info (resolveDenoInfoCache w) spec = None))
            \<and> denoInfoCalls (settle p out w) = denoInfoCalls w
            \<and> resolvePromises (settle p out w) spec = None
            \<and> (\<forall>es'. awaited p (exec es' (settle p out w)) = awaited p (settle p out w))
            \<and> (awaited p (settle p out w) = Some (Inl SpecifierNotFound) \<longrightarrow>
                 resolveDenoInfoCache (settle p out w) spec = None)"
    using pending_notFound by blast
  have b: "\<forall>c. resolveDenoInfoCache w spec = Some c \<longrightarrow>
              awaited (fst (denoResolve spec w)) (snd (denoResolve spec w)) = Some (Inr c)"
    using awaited_hit by blast
  have c: "resolveDenoInfoCache w spec = None \<longrightarrow>
              fst (denoResolve spec w) < length (promises (snd (denoResolve spec w)))
              \<and> promises (snd (denoResolve spec w)) ! fst (denoResolve spec w) = Pending spec"
    using denoResolve_miss [OF wf] by blast
  note d = resolveAwait_notFound [OF wf, of spec out]
  have e: "resolveIdResume (Inl SpecifierNotFound) = Inl SpecifierNotFound"
    by (simp add: resolveIdResume_def)
  have f: "loadResume files (Inl SpecifierNotFound) = Inl SpecifierNotFound"
    by (simp add: loadResume_def)
  show ?thesis
    apply (intro conjI)
         apply (rule a)
        apply (rule b)
       apply (rule c)
      apply (rule d)
     apply (rule e)
    apply (rule f)
    done
qed

theorem cache_consistency_error_witness:
  "promises (exec [Call ''jsr:@std/path''] newPlugin) ! 0 = Pending ''jsr:@std/path''
   \<and> awaited 0 (settle 0 (Exited 0 (ReportJSON \<lparr>redirects = [], modules = []\<rparr>))
         (exec [Call ''jsr:@std/path''] newPlugin)) = Some (Inl SpecifierNotFound)
   \<and> resolvePromises (settle 0 (Exited 0 (ReportJSON \<lparr>redirects = [], modules = []\<rparr>))
         (exec [Call ''jsr:@std/path''] newPlugin)) ''jsr:@std/path'' = None
   \<and> promises
        (exec [Call ''jsr:@std/path'',
               Seed \<lparr>redirects = [],
                     modules = [\<lparr>specifier = Some ''jsr:@std/path'', local = Some ''/cache/p.ts'',
                                 mediaType = Some TypeScript, npmPackage = None,
                                 npm_package = None, error = None\<rparr>]\<rparr>] newPlugin) ! 0
       = Pending ''jsr:@std/path''
   \<and> awaited 0 (settle 0 (Exited 0 (ReportJSON \<lparr>redirects = [], modules = []\<rparr>))
        (exec [Call ''jsr:@std/path'',
               Seed \<lparr>redirects = [],
                     modules = [\<lparr>specifier = Some ''jsr:@std/path'', local = Some ''/cache/p.ts'',
                                 mediaType = Some TypeScript, npmPackage = None,
                                 npm_package = None, error = None\<rparr>]\<rparr>] newPlugin))
       \<noteq> Some (Inl SpecifierNotFound)"
proof -
  let ?A = "''jsr:@std/path''"
  let ?out = "Exited 0 (ReportJSON \<lparr>redirects = [], modules = []\<rparr>)"
  let ?w = "exec [Call ?A] newPlugin"
  let ?seed = "\<lparr>redirects = [],
                     modules = [\<lparr>specifier = Some ''jsr:@std/path'', local = Some ''/cache/p.ts'',
                                 mediaType = Some TypeScript, npmPackage = None,
                                 npm_package = None, error = None\<rparr>]\<rparr>"
  let ?v = "exec [Call ?A, Seed ?seed] newPlugin"
  have w1: "0 < length (promises ?w)" and w2: "promises ?w ! 0 = Pending ?A"
    by (simp_all add: exec_def denoResolve_def newPlugin_def)
  have v1: "0 < length (promises ?v)" and v2: "promises ?v ! 0 = Pending ?A"
    by (simp_all add: exec_def denoResolve_def newPlugin_def)
  have wc: "cacheDenoInfo \<lparr>redirects = [], modules = []\<rparr> (resolveDenoInfoCache ?w) ?A = None"
    by (simp add: cacheDenoInfo_def exec_def denoResolve_def newPlugin_def)
  have vc: "cacheDenoInfo \<lparr>redirects = [], modules = []\<rparr> (resolveDenoInfoCache ?v) ?A \<noteq> None"
    by (simp add: cacheDenoInfo_def exec_def denoResolve_def newPlugin_def startsWith_def Let_def)
  have di: "denoInfo ?out = Inr \<lparr>redirects = [], modules = []\<rparr>" by simp
  note tw = cache_consistency_error [where es = "[Call ?A]" and spec = ?A and out = ?out
      and files = Map.empty, OF refl]
  note tv = cache_consistency_error [where es = "[Call ?A, Seed ?seed]" and spec = ?A
      and out = ?out and files = Map.empty, OF refl]
  from wc di have "\<exists>info. denoInfo ?out = Inr info
      \<and> cacheDenoInfo info (resolveDenoInfoCache ?w) ?A = None" by simp
  with tw w1 w2 have a: "awaited 0 (settle 0 ?out ?w) = Some (Inl SpecifierNotFound)"
    and b: "resolvePromises (settle 0 ?out ?w) ?A = None"
    by blast+
  from vc di have "\<not> (\<exists>info. denoInfo ?out = Inr info
      \<and> cacheDenoInfo info (resolveDenoInfoCache ?v) ?A = None)" by simp
  with tv v1 v2 have c: "awaited 0 (settle 0 ?out ?v) \<noteq> Some (Inl SpecifierNotFound)"
    by blast
  from w2 a b v2 c show ?thesis by blast
qed

subsection \<open>C6: the in-flight map\<close>

text \<open>
  C6. In every state the plugin can reach, a specifier has at most one computation in
  flight, and \<open>resolvePromises\<close> holds an entry for the specifier exactly when it has one,
  the promise of that computation. The entry is made by the call that finds neither a cache
  entry nor an entry in flight. When the computation ends, with a result or with an
  exception, the entry is gone in the state in which the promise is settled; a promise whose
  value a caller can receive is never an entry of the map.
\<close>

theorem inflight_map_lifecycle:
  assumes "w = exec es newPlugin"
  shows "length (inFlight spec w) \<le> 1
         \<and> (resolvePromises w spec = Some p) = (inFlight spec w = [p])
         \<and> (resolveDenoInfoCache w spec = None \<and> resolvePromises w spec = None \<longrightarrow>
              resolvePromises (snd (denoResolve spec w)) spec = Some (fst (denoResolve spec w))
              \<and> inFlight spec (snd (denoResolve spec w)) = [fst (denoResolve spec w)]
              \<and> awaited (fst (denoResolve spec w)) (snd (denoResolve spec w)) = None)
         \<and> (resolvePromises w spec = Some p \<longrightarrow>
              awaited p w = None
              \<and> (\<forall>out. resolvePromises (settle p out w) spec = None
                     \<and> inFlight spec (settle p out w) = []
                     \<and> awaited p (settle p out w)
                         = Some (fst (tryBlock spec out (resolveDenoInfoCache w)))))
         \<and> (awaited p w \<noteq> None \<longrightarrow> resolvePromises w spec \<noteq> Some p)"
proof -
  have wf: "wellFormed w" unfolding assms by (rule reachable_wellFormed)
  have a: "length (inFlight spec w) \<le> 1" using wf by (rule inFlight_le_one)
  have b: "(resolvePromises w spec = Some p) = (inFlight spec w = [p])"
    using wf by (rule inFlight_entry)
  have c: "resolvePromises (snd (denoResolve spec w)) spec = Some (fst (denoResolve spec w))
              \<and> inFlight spec (snd (denoResolve spec w)) = [fst (denoResolve spec w)]
              \<and> awaited (fst (denoResolve spec w)) (snd (denoResolve spec w)) = None"
    if miss: "resolveDenoInfoCache w spec = None" and idle: "resolvePromises w spec = None"
  proof -
    have wf': "wellFormed (snd (denoResolve spec w))" using wf by (rule wellFormed_denoResolve)
    have rp: "resolvePromises (snd (denoResolve spec w)) spec = Some (fst (denoResolve spec w))"
      unfolding denoResolve_start [OF miss idle] by simp
    from wellFormedD1 [OF wf' rp] have "awaited (fst (denoResolve spec w)) (snd (denoResolve spec w)) = None"
      by (simp add: awaited_def)
    moreover have "inFlight spec (snd (denoResolve spec w)) = [fst (denoResolve spec w)]"
      using inFlight_entry [OF wf'] rp by blast
    ultimately show ?thesis using rp by simp
  qed
  have d: "awaited p w = None
              \<and> (\<forall>out. resolvePromises (settle p out w) spec = None
                     \<and> inFlight spec (settle p out w) = []
                     \<and> awaited p (settle p out w)
                         = Some (fst (tryBlock spec out (resolveDenoInfoCache w))))"
    if rp: "resolvePromises w spec = Some p"
  proof -
    from wellFormedD1 [OF wf rp] have p: "p < length (promises w)" "promises w ! p = Pending spec"
      by blast+
    have "awaited p w = None" using p by (rule awaited_pending)
    moreover have "resolvePromises (settle p out w) spec = None" for out
      unfolding settle_fields(2) [OF p] by simp
    moreover have "inFlight spec (settle p out w) = []" for out
    proof -
      have "wellFormed (settle p out w)" using wf by (rule wellFormed_settle)
      then show ?thesis using \<open>resolvePromises (settle p out w) spec = None\<close>
        by (simp add: inFlight_wellFormed)
    qed
    moreover have "awaited p (settle p out w) = Some (fst (tryBlock spec out (resolveDenoInfoCache w)))" for out
      using p by (rule settle_awaited)
    ultimately show ?thesis by simp
  qed
  have e: "resolvePromises w spec \<noteq> Some p" if "awaited p w \<noteq> None"
  proof
    assume "resolvePromises w spec = Some p"
    from wellFormedD1 [OF wf this] have "awaited p w = None" by (simp add: awaited_def)
    with that show False by simp
  qed
  show ?thesis using a b c d e by blast
qed

theorem inflight_map_lifecycle_witness:
  "resolvePromises (exec [Call ''jsr:@std/path''] newPlugin) ''jsr:@std/path'' = Some 0
   \<and> inFlight ''jsr:@std/path'' (exec [Call ''jsr:@std/path''] newPlugin) = [0]
   \<and> length (inFlight ''jsr:@std/path'' (exec [Call ''jsr:@std/path''] newPlugin)) \<le> 1
   \<and> awaited 0 (exec [Call ''jsr:@std/path''] newPlugin) = None
   \<and> resolvePromises (settle 0 CommandError (exec [Call ''jsr:@std/path''] newPlugin))
        ''jsr:@std/path'' = None
   \<and> inFlight ''jsr:@std/path'' (settle 0 CommandError (exec [Call ''jsr:@std/path''] newPlugin)) = []"
proof -
  let ?w = "exec [Call ''jsr:@std/path''] newPlugin"
  have rp: "resolvePromises ?w ''jsr:@std/path'' = Some 0"
    by (simp add: exec_def denoResolve_def newPlugin_def)
  note t = inflight_map_lifecycle
    [where es = "[Call ''jsr:@std/path'']" and spec = "''jsr:@std/path''" and p = 0, OF refl]
  from t rp have "inFlight ''jsr:@std/path'' ?w = [0]" by blast
  moreover from t have "length (inFlight ''jsr:@std/path'' ?w) \<le> 1" by blast
  moreover from t rp have "awaited 0 ?w = None" by blast
  moreover from t rp have "resolvePromises (settle 0 CommandError ?w) ''jsr:@std/path'' = None"
    by blast
  moreover from t rp have "inFlight ''jsr:@std/path'' (settle 0 CommandError ?w) = []" by blast
  ultimately show ?thesis using rp by blast
qed

subsection \<open>C7: entries of the cache over time\<close>

text \<open>
  C7, as amended. Once a key has an entry, it has an entry after every sequence of events:
  nothing removes one. The entry is the same after every sequence of events none of which
  projects a report that writes the key. A projection of a report that writes the key
  replaces the entry by one built from a record of that report (\<open>Map.set\<close> overwrites).
\<close>

theorem cache_entries_persist:
  assumes "resolveDenoInfoCache w k = Some v"
  shows "(\<exists>v'. resolveDenoInfoCache (exec es w) k = Some v')
         \<and> ((\<forall>e \<in> set es. \<forall>info. reportOf e = Some info \<longrightarrow> k \<notin> writtenKeys info) \<longrightarrow>
              resolveDenoInfoCache (exec es w) k = Some v)
         \<and> (k \<in> writtenKeys info \<longrightarrow>
              (\<exists>v'. cacheDenoInfo info (resolveDenoInfoCache w) k = Some v'
                  \<and> (k, v') \<in> set (writes info)))"
proof (intro conjI impI)
  have "resolveDenoInfoCache (exec es w) k \<noteq> None" using assms by (intro exec_keeps) simp
  then show "\<exists>v'. resolveDenoInfoCache (exec es w) k = Some v'" by blast
next
  assume "\<forall>e \<in> set es. \<forall>info. reportOf e = Some info \<longrightarrow> k \<notin> writtenKeys info"
  then have "resolveDenoInfoCache (exec es w) k = resolveDenoInfoCache w k"
    by (intro exec_other) blast
  with assms show "resolveDenoInfoCache (exec es w) k = Some v" by simp
next
  assume "k \<in> writtenKeys info"
  then show "\<exists>v'. cacheDenoInfo info (resolveDenoInfoCache w) k = Some v' \<and> (k, v') \<in> set (writes info)"
    unfolding cacheDenoInfo_setAll writtenKeys_def by (rule setAll_written_mem)
qed

theorem cache_entries_persist_witness:
  "resolveDenoInfoCache
     (exec [Call ''https://deno.land/x/a.ts'',
            Finish 0 (Exited 0 (ReportJSON
              \<lparr>redirects = [],
               modules = [\<lparr>specifier = Some ''https://deno.land/x/a.ts'', local = None,
                           mediaType = Some TypeScript, npmPackage = None,
                           npm_package = None, error = None\<rparr>]\<rparr>))]
        newPlugin) ''https://deno.land/x/a.ts''
     = Some \<lparr>localPath = None, redirected = ''https://deno.land/x/a.ts'',
             moduleType = Some ModuleType.Ts\<rparr>
   \<and> ''https://deno.land/x/a.ts''
       \<notin> writtenKeys
           \<lparr>redirects = [],
            modules = [\<lparr>specifier = Some ''https://deno.land/x/b.ts'',
                        local = Some ''/cache/b.ts'', mediaType = Some TypeScript,
                        npmPackage = None, npm_package = None, error = None\<rparr>]\<rparr>
   \<and> resolveDenoInfoCache
        (exec [Call ''https://deno.land/x/b.ts'',
               Finish 1 (Exited 0 (ReportJSON
                 \<lparr>redirects = [],
                  modules = [\<lparr>specifier = Some ''https://deno.land/x/b.ts'',
                              local = Some ''/cache/b.ts'', mediaType = Some TypeScript,
                              npmPackage = None, npm_package = None, error = None\<rparr>]\<rparr>))]
          (exec [Call ''https://deno.land/x/a.ts'',
                 Finish 0 (Exited 0 (ReportJSON
                   \<lparr>redirects = [],
                    modules = [\<lparr>specifier = Some ''https://deno.land/x/a.ts'', local = None,
                                mediaType = Some TypeScript, npmPackage = None,
                                npm_package = None, error = None\<rparr>]\<rparr>))]
             newPlugin)) ''https://deno.land/x/a.ts''
     = Some \<lparr>localPath = None, redirected = ''https://deno.land/x/a.ts'',
             moduleType = Some ModuleType.Ts\<rparr>"
proof -
  let ?A = "''https://deno.land/x/a.ts''"
  let ?e = "\<lparr>localPath = None, redirected = ?A, moduleType = Some ModuleType.Ts\<rparr>"
  let ?w = "exec [Call ?A,
            Finish 0 (Exited 0 (ReportJSON
              \<lparr>redirects = [],
               modules = [\<lparr>specifier = Some ?A, local = None,
                           mediaType = Some TypeScript, npmPackage = None,
                           npm_package = None, error = None\<rparr>]\<rparr>))]
        newPlugin"
  let ?info = "\<lparr>redirects = [],
            modules = [\<lparr>specifier = Some ''https://deno.land/x/b.ts'',
                        local = Some ''/cache/b.ts'', mediaType = Some TypeScript,
                        npmPackage = None, npm_package = None, error = None\<rparr>]\<rparr>"
  let ?es = "[Call ''https://deno.land/x/b.ts'', Finish 1 (Exited 0 (ReportJSON ?info))]"
  have h: "resolveDenoInfoCache ?w ?A = Some ?e"
    by (simp add: exec_def denoResolve_def settle_def tryBlock_def cacheDenoInfo_def
        newPlugin_def startsWith_def Let_def)
  have nk: "?A \<notin> writtenKeys ?info"
    by (simp add: writtenKeys_def writes_def startsWith_def)
  then have "\<forall>e \<in> set ?es. \<forall>info. reportOf e = Some info \<longrightarrow> ?A \<notin> writtenKeys info"
    by simp
  with cache_entries_persist [OF h, of ?es]
  have "resolveDenoInfoCache (exec ?es ?w) ?A = Some ?e" by blast
  with h nk show ?thesis by blast
qed

text \<open>
  C7 as stated fails: the report of a later resolution that lists the module again, now with
  a local path, replaces the entry a first resolution has stored.
\<close>

theorem later_report_replaces_entry_counterexample:
  "resolveDenoInfoCache
     (exec [Call ''https://deno.land/x/a.ts'',
            Finish 0 (Exited 0 (ReportJSON
              \<lparr>redirects = [],
               modules = [\<lparr>specifier = Some ''https://deno.land/x/a.ts'', local = None,
                           mediaType = Some TypeScript, npmPackage = None,
                           npm_package = None, error = None\<rparr>]\<rparr>))]
        newPlugin) ''https://deno.land/x/a.ts''
     = Some \<lparr>localPath = None, redirected = ''https://deno.land/x/a.ts'',
             moduleType = Some ModuleType.Ts\<rparr>
   \<and> resolveDenoInfoCache
        (exec [Call ''https://deno.land/x/b.ts'',
               Finish 1 (Exited 0 (ReportJSON
                 \<lparr>redirects = [],
                  modules = [\<lparr>specifier = Some ''https://deno.land/x/b.ts'',
                              local = Some ''/cache/b.ts'', mediaType = Some TypeScript,
                              npmPackage = None, npm_package = None, error = None\<rparr>,
                             \<lparr>specifier = Some ''https://deno.land/x/a.ts'',
                              local = Some ''/cache/a.ts'', mediaType = Some TypeScript,
                              npmPackage = None, npm_package = None, error = None\<rparr>]\<rparr>))]
          (exec [Call ''https://deno.land/x/a.ts'',
                 Finish 0 (Exited 0 (ReportJSON
                   \<lparr>redirects = [],
                    modules = [\<lparr>specifier = Some ''https://deno.land/x/a.ts'', local = None,
                                mediaType = Some TypeScript, npmPackage = None,
                                npm_package = None, error = None\<rparr>]\<rparr>))]
             newPlugin)) ''https://deno.land/x/a.ts''
     = Some \<lparr>localPath = Some ''/cache/a.ts'', redirected = ''https://deno.land/x/a.ts'',
             moduleType = Some ModuleType.Ts\<rparr>"
  by (simp add: exec_def denoResolve_def settle_def tryBlock_def cacheDenoInfo_def
      newPlugin_def startsWith_def Let_def)

subsection \<open>C8: loading an entry without a local path\<close>

text \<open>
  C8. When the cache holds an entry without a local path for an id with the prefix \<open>jsr:\<close>,
  \<open>http:\<close> or \<open>https:\<close>, \<open>load\<close> awaits a promise that is already fulfilled with this entry
  and then throws \<open>Error("no local_path")\<close>. The two maps and the count of invocations
  are as they were, and the next resolution of the id is fulfilled with the same entry.
\<close>

theorem load_missing_artifact:
  assumes "startsWith ident ''jsr:'' \<or> startsWith ident ''http:'' \<or> startsWith ident ''https:''"
    and "resolveDenoInfoCache w ident = Some cached"
    and "localPath cached = None"
  shows "\<exists>p. loadStart ident w = (Some p, snd (loadStart ident w))
           \<and> awaited p (snd (loadStart ident w)) = Some (Inr cached)
           \<and> loadResume files (Inr cached) = Inl NoLocalPath
           \<and> resolveDenoInfoCache (snd (loadStart ident w)) = resolveDenoInfoCache w
           \<and> resolvePromises (snd (loadStart ident w)) = resolvePromises w
           \<and> denoInfoCalls (snd (loadStart ident w)) = denoInfoCalls w
           \<and> awaited (fst (denoResolve ident (snd (loadStart ident w))))
                 (snd (denoResolve ident (snd (loadStart ident w)))) = Some (Inr cached)"
proof -
  let ?w = "w\<lparr>promises := promises w @ [Settled (Inr cached)]\<rparr>"
  have ls: "loadStart ident w = (Some (length (promises w)), ?w)"
    using assms(1) by (simp add: loadStart_def denoResolve_hit [OF assms(2)])
  have hit: "resolveDenoInfoCache ?w ident = Some cached" using assms(2) by simp
  have a: "awaited (length (promises w)) ?w = Some (Inr cached)" by (simp add: awaited_def)
  have b: "loadResume files (Inr cached) = Inl NoLocalPath"
    using assms(3) by (simp add: loadResume_def)
  have c: "awaited (fst (denoResolve ident ?w)) (snd (denoResolve ident ?w)) = Some (Inr cached)"
    using hit by (rule awaited_hit)
  show ?thesis unfolding ls using a b c by simp
qed

theorem load_missing_artifact_witness:
  "loadStart ''jsr:@std/path''
     (newPlugin\<lparr>resolveDenoInfoCache :=
        [''jsr:@std/path'' \<mapsto> \<lparr>localPath = None, redirected = ''jsr:@std/path@1.0.8'',
                                 moduleType = Some ModuleType.Ts\<rparr>]\<rparr>)
   = (Some 0, newPlugin\<lparr>resolveDenoInfoCache :=
        [''jsr:@std/path'' \<mapsto> \<lparr>localPath = None, redirected = ''jsr:@std/path@1.0.8'',
                                 moduleType = Some ModuleType.Ts\<rparr>],
        promises := [Settled (Inr \<lparr>localPath = None, redirected = ''jsr:@std/path@1.0.8'',
                                 moduleType = Some ModuleType.Ts\<rparr>)]\<rparr>)
   \<and> loadResume Map.empty (Inr \<lparr>localPath = None, redirected = ''jsr:@std/path@1.0.8'',
                                 moduleType = Some ModuleType.Ts\<rparr>) = Inl NoLocalPath"
proof -
  let ?e = "\<lparr>localPath = None, redirected = ''jsr:@std/path@1.0.8'', moduleType = Some ModuleType.Ts\<rparr>"
  let ?w = "newPlugin\<lparr>resolveDenoInfoCache := [''jsr:@std/path'' \<mapsto> ?e]\<rparr>"
  have h1: "startsWith ''jsr:@std/path'' ''jsr:'' \<or> startsWith ''jsr:@std/path'' ''http:''
      \<or> startsWith ''jsr:@std/path'' ''https:''"
    by (simp add: startsWith_def)
  have h2: "resolveDenoInfoCache ?w ''jsr:@std/path'' = Some ?e" by simp
  have h3: "localPath ?e = None" by simp
  from load_missing_artifact [OF h1 h2 h3, of Map.empty]
  have "loadResume Map.empty (Inr ?e) = Inl NoLocalPath" by blast
  moreover have "loadStart ''jsr:@std/path'' ?w = (Some 0, ?w\<lparr>promises := [Settled (Inr ?e)]\<rparr>)"
    by (simp add: loadStart_def denoResolve_def newPlugin_def startsWith_def)
  ultimately show ?thesis by simp
qed

subsection \<open>C9: the package pattern\<close>

text \<open>
  C9, as amended. \<open>extractPackageAndPath\<close> gives \<open>("@scope/pkg", "sub/path")\<close> for
  \<open>"npm:@scope/pkg@1.2.3/sub/path"\<close> and \<open>("lodash", null)\<close> for \<open>"npm:lodash"\<close>. The result
  is \<open>(null, null)\<close> exactly for the strings made of \<open>/\<close> and \<open>@\<close> only, the empty string
  among them; for every other string the package name is not \<open>null\<close>.
\<close>

theorem extractPackageAndPath_results:
  "extractPackageAndPath ''npm:@scope/pkg@1.2.3/sub/path'' = (Some ''@scope/pkg'', Some ''sub/path'')
   \<and> extractPackageAndPath ''npm:lodash'' = (Some ''lodash'', None)
   \<and> (\<forall>spec. (extractPackageAndPath spec = (None, None)) = (set spec \<subseteq> {CHR ''/'', CHR ''@''}))
   \<and> (\<forall>spec. (fst (extractPackageAndPath spec) = None) = (set spec \<subseteq> {CHR ''/'', CHR ''@''}))"
proof (intro conjI allI)
  show "extractPackageAndPath ''npm:@scope/pkg@1.2.3/sub/path'' = (Some ''@scope/pkg'', Some ''sub/path'')"
    by code_simp
  show "extractPackageAndPath ''npm:lodash'' = (Some ''lodash'', None)"
    by code_simp
  show "(extractPackageAndPath spec = (None, None)) = (set spec \<subseteq> {CHR ''/'', CHR ''@''})" for spec
    by (rule extract_null_iff)
  show "(fst (extractPackageAndPath spec) = None) = (set spec \<subseteq> {CHR ''/'', CHR ''@''})" for spec
    by (rule extract_name_null_iff)
qed

theorem extractPackageAndPath_results_witness:
  "extractPackageAndPath ''@/@'' = (None, None) \<and> fst (extractPackageAndPath ''x'') \<noteq> None"
proof -
  have "set ''@/@'' \<subseteq> {CHR ''/'', CHR ''@''}" by simp
  then have a: "extractPackageAndPath ''@/@'' = (None, None)"
    using extractPackageAndPath_results by blast
  have "\<not> set ''x'' \<subseteq> {CHR ''/'', CHR ''@''}" by simp
  then have "fst (extractPackageAndPath ''x'') \<noteq> None"
    using extractPackageAndPath_results by blast
  with a show ?thesis by simp
qed

text \<open>
  C9 as stated fails for a string that has a scheme and no package: the pattern is not
  anchored and its scheme part is optional, so the scheme text itself is taken for the
  package name, and the result is not \<open>(null, null)\<close>.
\<close>

theorem scheme_without_package_counterexample:
  "extractPackageAndPath ''npm:'' = (Some ''npm:'', None)
   \<and> extractPackageAndPath ''npm:@1.2.3'' = (Some ''npm:'', None)
   \<and> extractPackageAndPath ''npm:/'' = (Some ''npm:'', None)"
  by code_simp

subsection \<open>C10: specifiers that begin with \<open>file://\<close>\<close>

text \<open>
  C10. Let a specifier begin with \<open>file://\<close> and have no cache entry when \<open>denoResolve\<close> is
  called for it, in a state the plugin can reach, and let the reports be as \<open>deno info\<close>
  prints them: the report the command of the call returns, and the reports projected while
  the command runs. Then the promise of the call is pending until its command finishes,
  and then rejected with \<open>Error("Specifier not found in cache after processing")\<close>, for
  good; the cache has no entry under the specifier afterwards. So it is for a resolution
  awaited to its end with nothing else running. And so it is when the report holds a module
  record for the specifier itself: the projection stores that record under the specifier
  without its seven leading characters, which is another string, and the second read asks
  for the specifier as it is.
\<close>

theorem file_specifier_is_never_found:
  assumes "w = exec es newPlugin"
    and "startsWith spec ''file://''"
    and "resolveDenoInfoCache w spec = None"
    and "denoResolve spec w = (p, w1)"
    and "\<forall>out. Finish p out \<notin> set es'"
    and "\<forall>e \<in> set es'. \<forall>r. reportOf e = Some r \<longrightarrow> printedReport r"
    and "printedReport info"
  shows "awaited p (exec es' w1) = None
         \<and> awaited p (settle p (Exited code (ReportJSON info)) (exec es' w1))
             = Some (Inl SpecifierNotFound)
         \<and> (\<forall>es''. awaited p (exec es'' (settle p (Exited code (ReportJSON info)) (exec es' w1)))
                     = Some (Inl SpecifierNotFound))
         \<and> resolveDenoInfoCache (settle p (Exited code (ReportJSON info)) (exec es' w1)) spec = None
         \<and> fst (resolveAwait spec (Exited code (ReportJSON info)) w) = Some (Inl SpecifierNotFound)
         \<and> replace spec ''file://'' '''' = drop 7 spec
         \<and> drop 7 spec \<noteq> spec
         \<and> ((\<exists>d \<in> set (modules info). specifier d = Some spec \<and> mediaType d \<noteq> None
                 \<and> npm_package d = None) \<longrightarrow>
              resolveDenoInfoCache (settle p (Exited code (ReportJSON info)) (exec es' w1))
                (drop 7 spec) \<noteq> None)"
proof -
  let ?out = "Exited code (ReportJSON info)"
  have wf: "wellFormed w" unfolding assms(1) by (rule reachable_wellFormed)
  have neq: "drop 7 spec \<noteq> spec"
    using replace_prefix_neq [OF assms(2)] unfolding replace_prefix [OF assms(2)] .
  have eq: "replace spec ''file://'' '''' = drop 7 spec" using assms(2) by (rule replace_prefix)
  from denoResolve_miss [OF wf assms(3)] assms(4)
  have p1: "p < length (promises w1)" "promises w1 ! p = Pending spec"
    and c1: "resolveDenoInfoCache w1 = resolveDenoInfoCache w" by simp_all
  have wf1: "wellFormed w1" using wellFormed_denoResolve [OF wf, of spec] assms(4) by simp
  have rp1: "resolvePromises w1 spec = Some p" using wf1 p1 by (rule wellFormedD2)
  have pend: "p < length (promises (exec xs w1)) \<and> promises (exec xs w1) ! p = Pending spec
              \<and> resolveDenoInfoCache (exec xs w1) spec = None"
    if quiet: "\<forall>out. Finish p out \<notin> set xs"
      and shaped: "\<forall>e \<in> set xs. \<forall>r. reportOf e = Some r \<longrightarrow> printedReport r" for xs
  proof -
    have "resolvePromises (exec xs w1) spec = Some p
        \<and> count_list (denoInfoCalls (exec xs w1)) spec = count_list (denoInfoCalls w1) spec"
      using wf1 rp1 quiet by (intro inFlight_exec) auto
    then have rp: "resolvePromises (exec xs w1) spec = Some p" by blast
    have wfv: "wellFormed (exec xs w1)" using wf1 by (rule wellFormed_exec)
    have "resolveDenoInfoCache (exec xs w1) spec = resolveDenoInfoCache w1 spec"
    proof (rule exec_other)
      fix e r assume "e \<in> set xs" "reportOf e = Some r"
      with shaped have "printedReport r" by blast
      then show "spec \<notin> writtenKeys r" using printedReport_keys assms(2) by blast
    qed
    then have "resolveDenoInfoCache (exec xs w1) spec = None" unfolding c1 assms(3) .
    with wellFormedD1 [OF wfv rp] show ?thesis by blast
  qed
  have nk: "spec \<notin> writtenKeys info" using printedReport_keys [OF assms(7)] assms(2) by blast
  have rej: "awaited p (settle p ?out v) = Some (Inl SpecifierNotFound)
             \<and> resolveDenoInfoCache (settle p ?out v) = cacheDenoInfo info (resolveDenoInfoCache v)
             \<and> resolveDenoInfoCache (settle p ?out v) spec = None"
    if p: "p < length (promises v)" "promises v ! p = Pending spec"
      and miss: "resolveDenoInfoCache v spec = None" for v
  proof -
    have none: "cacheDenoInfo info (resolveDenoInfoCache v) spec = None"
      using cacheDenoInfo_other [OF nk] miss by simp
    have tb: "tryBlock spec ?out (resolveDenoInfoCache v)
        = (Inl SpecifierNotFound, cacheDenoInfo info (resolveDenoInfoCache v))"
      using none by (simp add: tryBlock_cases)
    have a: "awaited p (settle p ?out v) = Some (Inl SpecifierNotFound)"
      unfolding settle_awaited [OF p] tb by simp
    have b: "resolveDenoInfoCache (settle p ?out v) = cacheDenoInfo info (resolveDenoInfoCache v)"
      unfolding settle_fields(1) [OF p] tb by simp
    from a b none show ?thesis by simp
  qed
  let ?v = "exec es' w1"
  from pend [OF assms(5) assms(6)]
  have pv: "p < length (promises ?v)" "promises ?v ! p = Pending spec"
    and cv: "resolveDenoInfoCache ?v spec = None" by blast+
  note rv = rej [OF pv cv]
  have a: "awaited p ?v = None" using pv by (rule awaited_pending)
  have b: "awaited p (settle p ?out ?v) = Some (Inl SpecifierNotFound)" using rv by blast
  have c: "\<forall>es''. awaited p (exec es'' (settle p ?out ?v)) = Some (Inl SpecifierNotFound)"
    using awaited_exec [OF b] by blast
  have d: "resolveDenoInfoCache (settle p ?out ?v) spec = None" using rv by blast
  have "resolveAwait spec ?out w = (awaited p (settle p ?out w1), settle p ?out w1)"
    unfolding resolveAwait_def assms(4) by (simp add: Let_def)
  moreover have "awaited p (settle p ?out w1) = Some (Inl SpecifierNotFound)"
    using rej [OF p1] c1 assms(3) by simp
  ultimately have e: "fst (resolveAwait spec ?out w) = Some (Inl SpecifierNotFound)" by simp
  have f: "resolveDenoInfoCache (settle p ?out ?v) (drop 7 spec) \<noteq> None"
    if "\<exists>d \<in> set (modules info). specifier d = Some spec \<and> mediaType d \<noteq> None
          \<and> npm_package d = None"
  proof -
    from that have "drop 7 spec \<in> writtenKeys info"
      unfolding writtenKeys_iff eq [symmetric] by blast
    then obtain x where "setAll (writes info) (resolveDenoInfoCache ?v) (drop 7 spec) = Some x"
      unfolding writtenKeys_def using setAll_written_mem by blast
    then show ?thesis using rv unfolding cacheDenoInfo_setAll by simp
  qed
  show ?thesis
    apply (intro conjI)
           apply (rule a)
          apply (rule b)
         apply (rule c)
        apply (rule d)
       apply (rule e)
      apply (rule eq)
     apply (rule neq)
    apply (intro impI)
    apply (rule f)
    apply assumption
    done
qed

theorem file_specifier_is_never_found_witness:
  "startsWith ''file:///proj/main.ts'' ''file://''
   \<and> resolveDenoInfoCache (exec [] newPlugin) ''file:///proj/main.ts'' = None
   \<and> printedReport \<lparr>redirects = [],
            modules = [\<lparr>specifier = Some ''file:///proj/main.ts'', local = Some ''/proj/main.ts'',
                        mediaType = Some TypeScript, npmPackage = None, npm_package = None,
                        error = None\<rparr>,
                       \<lparr>specifier = Some ''file:///proj/dep.ts'', local = Some ''/proj/dep.ts'',
                        mediaType = Some TypeScript, npmPackage = None, npm_package = None,
                        error = None\<rparr>]\<rparr>
   \<and> awaited 0 (settle 0 (Exited 0 (ReportJSON \<lparr>redirects = [],
            modules = [\<lparr>specifier = Some ''file:///proj/main.ts'', local = Some ''/proj/main.ts'',
                        mediaType = Some TypeScript, npmPackage = None, npm_package = None,
                        error = None\<rparr>,
                       \<lparr>specifier = Some ''file:///proj/dep.ts'', local = Some ''/proj/dep.ts'',
                        mediaType = Some TypeScript, npmPackage = None, npm_package = None,
                        error = None\<rparr>]\<rparr>))
        (exec [Call ''jsr:@std/path'', Finish 1 (Exited 0 (ReportJSON
           \<lparr>redirects = [(''jsr:@std/path'', ''https://jsr.io/@std/path/1.0.8/mod.ts'')],
            modules = [\<lparr>specifier = Some ''https://jsr.io/@std/path/1.0.8/mod.ts'',
                        local = Some ''/cache/mod.ts'', mediaType = Some TypeScript,
                        npmPackage = None, npm_package = None, error = None\<rparr>]\<rparr>))]
          (snd (denoResolve ''file:///proj/main.ts'' (exec [] newPlugin)))))
     = Some (Inl SpecifierNotFound)
   \<and> resolveDenoInfoCache (settle 0 (Exited 0 (ReportJSON \<lparr>redirects = [],
            modules = [\<lparr>specifier = Some ''file:///proj/main.ts'', local = Some ''/proj/main.ts'',
                        mediaType = Some TypeScript, npmPackage = None, npm_package = None,
                        error = None\<rparr>,
                       \<lparr>specifier = Some ''file:///proj/dep.ts'', local = Some ''/proj/dep.ts'',
                        mediaType = Some TypeScript, npmPackage = None, npm_package = None,
                        error = None\<rparr>]\<rparr>))
        (exec [Call ''jsr:@std/path'', Finish 1 (Exited 0 (ReportJSON
           \<lparr>redirects = [(''jsr:@std/path'', ''https://jsr.io/@std/path/1.0.8/mod.ts'')],
            modules = [\<lparr>specifier = Some ''https://jsr.io/@std/path/1.0.8/mod.ts'',
                        local = Some ''/cache/mod.ts'', mediaType = Some TypeScript,
                        npmPackage = None, npm_package = None, error = None\<rparr>]\<rparr>))]
          (snd (denoResolve ''file:///proj/main.ts'' (exec [] newPlugin)))))
        ''file:///proj/main.ts'' = None
   \<and> resolveDenoInfoCache (settle 0 (Exited 0 (ReportJSON \<lparr>redirects = [],
            modules = [\<lparr>specifier = Some ''file:///proj/main.ts'', local = Some ''/proj/main.ts'',
                        mediaType = Some TypeScript, npmPackage = None, npm_package = None,
                        error = None\<rparr>,
                       \<lparr>specifier = Some ''file:///proj/dep.ts'', local = Some ''/proj/dep.ts'',
                        mediaType = Some TypeScript, npmPackage = None, npm_package = None,
                        error = None\<rparr>]\<rparr>))
        (exec [Call ''jsr:@std/path'', Finish 1 (Exited 0 (ReportJSON
           \<lparr>redirects = [(''jsr:@std/path'', ''https://jsr.io/@std/path/1.0.8/mod.ts'')],
            modules = [\<lparr>specifier = Some ''https://jsr.io/@std/path/1.0.8/mod.ts'',
                        local = Some ''/cache/mod.ts'', mediaType = Some TypeScript,
                        npmPackage = None, npm_package = None, error = None\<rparr>]\<rparr>))]
          (snd (denoResolve ''file:///proj/main.ts'' (exec [] newPlugin)))))
        ''/proj/main.ts''
     = Some \<lparr>localPath = Some ''/proj/main.ts'', redirected = ''file:///proj/main.ts'',
             moduleType = Some ModuleType.Ts\<rparr>"
proof -
  let ?spec = "''file:///proj/main.ts''"
  let ?info = "\<lparr>redirects = [],
            modules = [\<lparr>specifier = Some ''file:///proj/main.ts'', local = Some ''/proj/main.ts'',
                        mediaType = Some TypeScript, npmPackage = None, npm_package = None,
                        error = None\<rparr>,
                       \<lparr>specifier = Some ''file:///proj/dep.ts'', local = Some ''/proj/dep.ts'',
                        mediaType = Some TypeScript, npmPackage = None, npm_package = None,
                        error = None\<rparr>]\<rparr>"
  let ?jsr = "\<lparr>redirects = [(''jsr:@std/path'', ''https://jsr.io/@std/path/1.0.8/mod.ts'')],
            modules = [\<lparr>specifier = Some ''https://jsr.io/@std/path/1.0.8/mod.ts'',
                        local = Some ''/cache/mod.ts'', mediaType = Some TypeScript,
                        npmPackage = None, npm_package = None, error = None\<rparr>]\<rparr>"
  let ?es' = "[Call ''jsr:@std/path'', Finish 1 (Exited 0 (ReportJSON ?jsr))]"
  let ?w = "exec [] newPlugin"
  let ?w1 = "snd (denoResolve ?spec ?w)"
  note ev = denoResolve_def settle_def tryBlock_def cacheDenoInfo_def awaited_def newPlugin_def
    exec_def startsWith_def Let_def
  note shape = printedReport_def urlSpecifier_def fileUrl_def startsWith_def
  have h2: "startsWith ?spec ''file://''" by (simp add: startsWith_def)
  have h3: "resolveDenoInfoCache ?w ?spec = None" by (simp add: newPlugin_def exec_def)
  have h4: "denoResolve ?spec ?w = (0, ?w1)" by (simp add: ev)
  have h5: "\<forall>out. Finish 0 out \<notin> set ?es'" by simp
  have pj: "printedReport ?jsr" by (simp add: shape)
  have h6: "\<forall>e \<in> set ?es'. \<forall>r. reportOf e = Some r \<longrightarrow> printedReport r" using pj by simp
  have h7: "printedReport ?info" by (simp add: shape)
  have stored: "resolveDenoInfoCache (settle 0 (Exited 0 (ReportJSON ?info)) (exec ?es' ?w1))
        ''/proj/main.ts''
     = Some \<lparr>localPath = Some ''/proj/main.ts'', redirected = ''file:///proj/main.ts'',
             moduleType = Some ModuleType.Ts\<rparr>"
    by (simp add: ev)
  from file_specifier_is_never_found [OF refl h2 h3 h4 h5 h6 h7, of 0]
  have "awaited 0 (settle 0 (Exited 0 (ReportJSON ?info)) (exec ?es' ?w1))
          = Some (Inl SpecifierNotFound)"
    and "resolveDenoInfoCache (settle 0 (Exited 0 (ReportJSON ?info)) (exec ?es' ?w1)) ?spec = None"
    by blast+
  with h2 h3 h7 stored show ?thesis by (intro conjI)
qed

end
